theory Spec2Isabelle
  imports Main "HOL-Library.Sublist" "HOL-Library.Multiset"
begin

section \<open>Data model of launcher.cpp\<close>

text \<open>
  The launcher keeps its state in process-wide variables. The embedding follows the
  source: the structs \<^verbatim>\<open>Keyword\<close>, \<^verbatim>\<open>Application\<close> and \<^verbatim>\<open>Result\<close> are records, the enum
  \<^verbatim>\<open>StyleAttribute\<close> is a datatype, \<^verbatim>\<open>std::string\<close> is \<^typ>\<open>string\<close> (a list of bytes) and the
  two \<^verbatim>\<open>std::map\<close>s over the enum, which always hold all ten keys, are total functions.

  A \<^verbatim>\<open>Result\<close> holds a pointer into the vector \<^verbatim>\<open>applications\<close>; the model keeps the index
  of the element pointed at. The fields \<^verbatim>\<open>id\<close>, \<^verbatim>\<open>name\<close>, \<^verbatim>\<open>keywords\<close> and \<^verbatim>\<open>count\<close> of
  \<^verbatim>\<open>Application\<close> are called \<open>app_id\<close>, \<open>app_name\<close>, \<open>app_keywords\<close> and \<open>app_count\<close>: Isabelle has
  constants or keywords of the shorter names.

  C++ \<^verbatim>\<open>int\<close> values are modelled as \<^typ>\<open>int\<close> and sizes as \<^typ>\<open>nat\<close>. The arithmetic of
  the score and of the keyword index is 32-bit: every result of an \<^verbatim>\<open>int\<close> operation
  there is wrapped into the range from \<open>- 2^31\<close> to \<open>2^31 - 1\<close> (\<open>int32\<close>). Signed overflow
  is undefined behaviour in C++; two's complement wrap-around is what the compiled program
  does with it, and the statements about scores say where the range is left. Strings are
  shorter than \<open>2^31\<close> bytes, so that the conversions between \<^verbatim>\<open>size_t\<close> and \<^verbatim>\<open>int\<close> of
  a length or a position are exact. The conversions whose wrap-around the code meets on
  small values, of a possibly negative \<^verbatim>\<open>int\<close> to \<^verbatim>\<open>size_t\<close> in a comparison and of
  \<^verbatim>\<open>results.size() - 1\<close> on an empty vector, are written out. \<^verbatim>\<open>std::stoi\<close> checks its
  range itself, and the model has the check.
\<close>

datatype StyleAttribute =
  C_TITLE | C_COMMENT | C_BG | C_HIGHLIGHT | C_MATCH
| F_REGULAR | F_BOLD | F_SMALLREGULAR | F_SMALLBOLD | F_LARGE

record Keyword =
  word :: string
  weight :: int

record Application =
  app_id :: string
  app_name :: string
  genericName :: string
  comment :: string
  cmd :: string
  app_keywords :: "Keyword list"
  app_count :: int

record Result =
  app :: nat
  score :: int

text \<open>
  The exceptions the standard library raises in this program; none is caught, so each of
  them ends the program. \<^verbatim>\<open>std::invalid_argument\<close> and \<^verbatim>\<open>std::out_of_range\<close> come from
  \<^verbatim>\<open>stoi\<close>, \<^verbatim>\<open>substr\<close> and \<^verbatim>\<open>erase\<close>, \<^verbatim>\<open>fs::filesystem_error\<close> from \<^verbatim>\<open>fs::directory_iterator\<close>.
\<close>

datatype error = InvalidArgument | OutOfRange | FilesystemError

section \<open>Strings\<close>

text \<open>\<^verbatim>\<open>::tolower\<close> in the "C" locale (the program never calls \<^verbatim>\<open>setlocale\<close>).\<close>

definition tolower :: "char \<Rightarrow> char" where
  "tolower c =
     (let n = (of_char c :: nat) in if 65 \<le> n \<and> n \<le> 90 then char_of (n + 32) else c)"

definition lowercase :: "string \<Rightarrow> string" where
  "lowercase str = map tolower str"

text \<open>
  \<^verbatim>\<open>s.find(q)\<close>: the least position at which \<open>q\<close> occurs in \<open>s\<close>, \<open>None\<close> for
  \<^verbatim>\<open>string::npos\<close>.
\<close>

fun find_str :: "string \<Rightarrow> string \<Rightarrow> nat option" where
  "find_str [] q = (if q = [] then Some 0 else None)"
| "find_str (c # s) q =
     (if prefix q (c # s) then Some 0 else map_option Suc (find_str s q))"

text \<open>\<^verbatim>\<open>s.find_last_of(cs)\<close>: the last position of \<open>s\<close> that holds a character of \<open>cs\<close>.\<close>

fun find_last_of :: "string \<Rightarrow> string \<Rightarrow> nat option" where
  "find_last_of [] cs = None"
| "find_last_of (c # s) cs =
     (case find_last_of s cs of
        Some i \<Rightarrow> Some (Suc i)
      | None \<Rightarrow> if c \<in> set cs then Some 0 else None)"

text \<open>
  \<^verbatim>\<open>getline(ss, word, d)\<close> on a stream whose unread characters are \<open>ss\<close>: it fails
  (\<open>None\<close>) when nothing is left to read; otherwise it extracts the characters up to the
  next delimiter, consumes the delimiter and succeeds, also when the extracted string is
  empty. The result is the string read and the characters left in the stream.
\<close>

definition getline :: "string \<Rightarrow> char \<Rightarrow> (string \<times> string) option" where
  "getline ss d =
     (if ss = [] then None
      else Some (takeWhile (\<lambda>c. c \<noteq> d) ss, drop 1 (dropWhile (\<lambda>c. c \<noteq> d) ss)))"

text \<open>The loop \<^verbatim>\<open>while (getline(ss, word, d)) { ... word ... }\<close>: the strings it reads.\<close>

function getline_all :: "char \<Rightarrow> string \<Rightarrow> string list" where
  "getline_all d ss =
     (case getline ss d of
        None \<Rightarrow> []
      | Some (w, rest) \<Rightarrow> w # getline_all d rest)"
  by pat_completeness auto
termination
proof (relation "measure (\<lambda>(d, ss). length ss)")
  show "wf (measure (\<lambda>(d, ss). length ss))" by simp
next
  fix d :: char and ss :: string and x2 w rest
  assume "getline ss d = Some x2" and "(w, rest) = x2"
  then have "ss \<noteq> []" and "rest = drop 1 (dropWhile (\<lambda>c. c \<noteq> d) ss)"
    by (auto simp: getline_def split: if_splits)
  moreover have "length (dropWhile (\<lambda>c. c \<noteq> d) ss) \<le> length ss"
    by (rule length_dropWhile_le)
  ultimately show "((d, rest), (d, ss)) \<in> measure (\<lambda>(d, ss). length ss)"
    by (cases ss) auto
qed

declare getline_all.simps [simp del]

section \<open>Ranking: \<^verbatim>\<open>search\<close>\<close>

text \<open>
  The value of a 32-bit \<^verbatim>\<open>int\<close> operation whose exact result is \<open>x\<close>: \<open>x\<close> itself within
  the range, and \<open>x\<close> wrapped around modulo \<open>2^32\<close> outside it.
\<close>

definition int32 :: "int \<Rightarrow> int" where
  "int32 x = (x + 2 ^ 31) mod 2 ^ 32 - 2 ^ 31"

text \<open>
  The inner loop of \<^verbatim>\<open>search\<close> over \<^verbatim>\<open>app.keywords\<close>, with the local \<^verbatim>\<open>i\<close> as an
  argument: the first keyword in which the query is found sets the score and leaves the
  loop (\<^verbatim>\<open>break\<close>); a loop that runs to the end leaves \<^verbatim>\<open>score\<close> at its initial 0.
  The subtraction, the two multiplications, the addition and \<^verbatim>\<open>i++\<close> are \<^verbatim>\<open>int\<close>
  operations.
\<close>

fun scan_keywords :: "string \<Rightarrow> int \<Rightarrow> int \<Rightarrow> Keyword list \<Rightarrow> int" where
  "scan_keywords q cnt i [] = 0"
| "scan_keywords q cnt i (keyword # ks) =
     (case find_str (word keyword) q of
        Some matchIndex \<Rightarrow>
          int32 (int32 (int32 (int32 (100 - i) * weight keyword)
                          * (if matchIndex = 0 then 10000 else 100))
                 + cnt)
      | None \<Rightarrow> scan_keywords q cnt (int32 (i + 1)) ks)"

definition app_score :: "string \<Rightarrow> Application \<Rightarrow> int" where
  "app_score q a = scan_keywords q (app_count a) 0 (app_keywords a)"

text \<open>
  The outer loop over \<^verbatim>\<open>applications\<close>; \<open>k\<close> is the index of the head of the remaining
  vector, which is what \<^verbatim>\<open>&app\<close> stands for in the model.
\<close>

fun collect :: "string \<Rightarrow> nat \<Rightarrow> Application list \<Rightarrow> Result list" where
  "collect q k [] = []"
| "collect q k (a # as) =
     (if app_score q a > 0
      then \<lparr>app = k, score = app_score q a\<rparr> # collect q (Suc k) as
      else collect q (Suc k) as)"

text \<open>
  \<^verbatim>\<open>std::sort\<close> with the comparator \<^verbatim>\<open>b.score < a.score\<close> is library code, and it is not
  stable: the standard promises a permutation of the input in which no element is
  followed by one the comparator puts before it, and nothing about the order of equal
  scores. The model takes the sorting function as a parameter \<open>srt\<close>; \<open>std_sort srt\<close> is
  that contract. \<open>sort_desc\<close> is one function that meets it.
\<close>

definition std_sort :: "(Result list \<Rightarrow> Result list) \<Rightarrow> bool" where
  "std_sort srt \<longleftrightarrow>
     (\<forall>rs. mset (srt rs) = mset rs \<and> sorted_wrt (\<lambda>a b. \<not> score a < score b) (srt rs))"

fun insert_desc :: "Result \<Rightarrow> Result list \<Rightarrow> Result list" where
  "insert_desc r [] = [r]"
| "insert_desc r (x # xs) = (if score x < score r then r # x # xs else x # insert_desc r xs)"

fun sort_desc :: "Result list \<Rightarrow> Result list" where
  "sort_desc [] = []"
| "sort_desc (r # rs) = insert_desc r (sort_desc rs)"

text \<open>
  \<^verbatim>\<open>search\<close> reads \<^verbatim>\<open>queryi\<close> and \<^verbatim>\<open>applications\<close> and assigns \<^verbatim>\<open>results\<close>; the model
  returns the new value of \<^verbatim>\<open>results\<close>.
\<close>

definition search :: "(Result list \<Rightarrow> Result list) \<Rightarrow> string \<Rightarrow> Application list \<Rightarrow> Result list" where
  "search srt queryi applications =
     (if length queryi > 0
      then let results = srt (collect queryi 0 applications)
           in if length results > 10 then take 10 results else results
      else [])"

section \<open>Indexing: \<^verbatim>\<open>getApplications\<close>\<close>

text \<open>
  The body of the loop over the lines of one desktop file: five \<^verbatim>\<open>if\<close> statements in
  sequence, each a function here, applied to the record as the one before left it. \<^verbatim>\<open>line.find(p) == 0\<close> is
  \<open>find_str line p = Some 0\<close>, and \<^verbatim>\<open>line.substr(n)\<close> is \<open>drop n line\<close> there, since
  the line is at least as long as the prefix found in it. \<open>push_words w str\<close> is what the
  loop \<^verbatim>\<open>while (getline(ss, word, ' ')) app.keywords.push_back({ word, w })\<close> appends for a
  stream \<^verbatim>\<open>ss\<close> over \<open>str\<close>.
\<close>

definition push_words :: "int \<Rightarrow> string \<Rightarrow> Keyword list" where
  "push_words w str = map (\<lambda>x. \<lparr>word = x, weight = w\<rparr>) (getline_all CHR '' '' str)"

definition read_name :: "string \<Rightarrow> Application \<Rightarrow> Application" where
  "read_name line a =
     (if app_name a = [] \<and> find_str line ''Name='' = Some 0
      then a\<lparr>app_name := drop 5 line\<rparr> else a)"

definition read_genericName :: "string \<Rightarrow> Application \<Rightarrow> Application" where
  "read_genericName line a =
     (if genericName a = [] \<and> find_str line ''GenericName='' = Some 0
      then a\<lparr>genericName := drop 12 line\<rparr> else a)"

definition read_comment :: "string \<Rightarrow> Application \<Rightarrow> Application" where
  "read_comment line a =
     (if comment a = [] \<and> find_str line ''Comment='' = Some 0
      then a\<lparr>comment := drop 8 line\<rparr> else a)"

definition read_cmd :: "string \<Rightarrow> Application \<Rightarrow> Application" where
  "read_cmd line a =
     (if cmd a = [] \<and> find_str line ''Exec='' = Some 0 \<and> drop 5 line \<noteq> []
      then a\<lparr>cmd := drop 5 line\<rparr> else a)"

definition read_keywords :: "string \<Rightarrow> Application \<Rightarrow> Application" where
  "read_keywords line a =
     (if cmd a = [] \<and> find_str line ''Keywords='' = Some 0
      then a\<lparr>app_keywords := app_keywords a @ push_words 1 (lowercase (drop 9 line))\<rparr>
      else a)"

definition parse_line :: "string \<Rightarrow> Application \<Rightarrow> Application" where
  "parse_line line a =
     read_keywords line (read_cmd line (read_comment line (read_genericName line
       (read_name line a))))"

fun parse_lines :: "string list \<Rightarrow> Application \<Rightarrow> Application" where
  "parse_lines [] a = a"
| "parse_lines (line # ls) a = parse_lines ls (parse_line line a)"

text \<open>
  The two tokenising loops after the file is read (lines 289 to 298): the words of the
  lower-cased name with weight 1000, then the words of the lower-cased generic name, a
  space and the comment with weight 1.
\<close>

definition index_keywords :: "Application \<Rightarrow> Application" where
  "index_keywords a =
     a\<lparr>app_keywords := app_keywords a
          @ push_words 1000 (lowercase (app_name a))
          @ push_words 1 (lowercase (genericName a @ [CHR '' ''] @ comment a))\<rparr>"

text \<open>
  One directory entry: \<open>path\<close> is \<^verbatim>\<open>entry.path()\<close> and \<open>content\<close> the bytes of the file.
  \<^verbatim>\<open>Application app = {}\<close> has empty strings, no keywords and count 0.
\<close>

definition read_application :: "string \<Rightarrow> string \<Rightarrow> Application" where
  "read_application path content =
     index_keywords
       (parse_lines (getline_all (CHR 0x0A) content)
          \<lparr>app_id = path, app_name = [], genericName = [], comment = [], cmd = [],
           app_keywords = [], app_count = 0\<rparr>)"

text \<open>
  \<^verbatim>\<open>APP_DIRS\<close>, with \<^verbatim>\<open>DATA_DIR\<close> (which comes from the environment) as a parameter.
\<close>

definition APP_DIRS :: "string \<Rightarrow> string list" where
  "APP_DIRS data_dir =
     [''/usr/share/applications'', ''/usr/local/share/applications'',
      data_dir @ ''/applications'']"

text \<open>
  The file system is a parameter \<open>ls\<close>, which gives each path of \<^verbatim>\<open>APP_DIRS\<close> one of three
  states. \<open>Absent\<close>: \<^verbatim>\<open>stat\<close> fails, and the loop goes on to the next path. \<open>NotIterable\<close>:
  \<^verbatim>\<open>stat\<close> succeeds but the path is not a directory that can be opened (a regular file, a
  directory without read permission), so the constructor of \<^verbatim>\<open>fs::directory_iterator\<close>
  throws \<^verbatim>\<open>fs::filesystem_error\<close>; nothing catches it and the program ends, whatever the
  paths before it held. \<open>Entries\<close>: the entries of the directory in the order of the
  iteration, each with its file name and content (empty content for an entry that cannot
  be read: the \<^verbatim>\<open>ifstream\<close> fails and the loop over its lines does not run).
  \<^verbatim>\<open>entry.path()\<close> is the directory, a slash and the file name.
\<close>

datatype directory = Absent | NotIterable | Entries "(string \<times> string) list"

fun read_directories ::
  "(string \<Rightarrow> directory) \<Rightarrow> string list \<Rightarrow> error + Application list" where
  "read_directories ls [] = Inr []"
| "read_directories ls (dir # dirs) =
     (case ls dir of
        Absent \<Rightarrow> read_directories ls dirs
      | NotIterable \<Rightarrow> Inl FilesystemError
      | Entries entries \<Rightarrow>
          (case read_directories ls dirs of
             Inl e \<Rightarrow> Inl e
           | Inr apps \<Rightarrow>
               Inr (map (\<lambda>(name, content). read_application (dir @ ''/'' @ name) content)
                      entries @ apps)))"

definition getApplications ::
  "string \<Rightarrow> (string \<Rightarrow> directory) \<Rightarrow> error + Application list" where
  "getApplications data_dir ls = read_directories ls (APP_DIRS data_dir)"

section \<open>The configuration file: \<^verbatim>\<open>readConfig\<close> and \<^verbatim>\<open>writeConfig\<close>\<close>

text \<open>The two constant maps, \<^verbatim>\<open>STYLE_ATTRIBUTES\<close> in the order its iteration visits the keys.\<close>

definition STYLE_ATTRIBUTES :: "(StyleAttribute \<times> string) list" where
  "STYLE_ATTRIBUTES =
     [(C_TITLE, ''title''), (C_COMMENT, ''comment''), (C_BG, ''background''),
      (C_HIGHLIGHT, ''highlight''), (C_MATCH, ''match''), (F_REGULAR, ''regular''),
      (F_BOLD, ''bold''), (F_SMALLREGULAR, ''smallregular''), (F_SMALLBOLD, ''smallbold''),
      (F_LARGE, ''large'')]"

fun DEFAULT_STYLE :: "StyleAttribute \<Rightarrow> string" where
  "DEFAULT_STYLE C_TITLE = ''#111111''"
| "DEFAULT_STYLE C_COMMENT = ''#999999''"
| "DEFAULT_STYLE C_BG = ''#ffffff''"
| "DEFAULT_STYLE C_HIGHLIGHT = ''#f8c291''"
| "DEFAULT_STYLE C_MATCH = ''#111111''"
| "DEFAULT_STYLE F_REGULAR = ''Ubuntu,sans-11''"
| "DEFAULT_STYLE F_BOLD = ''Ubuntu,sans-11:bold''"
| "DEFAULT_STYLE F_SMALLREGULAR = ''Ubuntu,sans-10''"
| "DEFAULT_STYLE F_SMALLBOLD = ''Ubuntu,sans-10:bold''"
| "DEFAULT_STYLE F_LARGE = ''Ubuntu,sans-20:light''"

text \<open>
  \<^verbatim>\<open>std::stoi\<close>, which is \<^verbatim>\<open>strtol\<close> in base 10 with two checks: white space is skipped,
  a sign is optional, the digits that follow are the number and whatever comes after
  them is ignored; no digit raises \<^verbatim>\<open>std::invalid_argument\<close>, a number that does not fit
  an \<^verbatim>\<open>int\<close> raises \<^verbatim>\<open>std::out_of_range\<close>.
\<close>

definition isspace :: "char \<Rightarrow> bool" where
  "isspace c = (let n = (of_char c :: nat) in n = 32 \<or> (9 \<le> n \<and> n \<le> 13))"

definition isdigit :: "char \<Rightarrow> bool" where
  "isdigit c = (let n = (of_char c :: nat) in 48 \<le> n \<and> n \<le> 57)"

fun dec_value :: "int \<Rightarrow> string \<Rightarrow> int" where
  "dec_value acc [] = acc"
| "dec_value acc (c # cs) = dec_value (acc * 10 + (of_char c - 48)) cs"

definition stoi :: "string \<Rightarrow> error + int" where
  "stoi str =
     (let s1 = dropWhile isspace str;
          negative = (s1 \<noteq> [] \<and> hd s1 = CHR ''-'');
          s2 = (if s1 \<noteq> [] \<and> (hd s1 = CHR ''-'' \<or> hd s1 = CHR ''+'') then tl s1 else s1);
          ds = takeWhile isdigit s2;
          v = (if negative then - dec_value 0 ds else dec_value 0 ds)
      in if ds = [] then Inl InvalidArgument
         else if v < - (2 ^ 31) \<or> 2 ^ 31 - 1 < v then Inl OutOfRange
         else Inr v)"

text \<open>\<^verbatim>\<open>outfile << n\<close> for an \<^verbatim>\<open>int\<close>: its decimal digits, after a minus sign when negative.\<close>

fun digits :: "nat \<Rightarrow> string" where
  "digits n = (if n < 10 then [char_of (48 + n)] else digits (n div 10) @ [char_of (48 + n mod 10)])"

definition to_string :: "int \<Rightarrow> string" where
  "to_string n = (if n < 0 then CHR ''-'' # digits (nat (- n)) else digits (nat n))"

text \<open>
  The loop of \<^verbatim>\<open>readConfig\<close> over \<^verbatim>\<open>STYLE_ATTRIBUTES\<close>: the first attribute whose
  name is the key takes the value.
\<close>

fun readStyle ::
  "(StyleAttribute \<times> string) list \<Rightarrow> string \<Rightarrow> string \<Rightarrow> (StyleAttribute \<Rightarrow> string)
     \<Rightarrow> (StyleAttribute \<Rightarrow> string)" where
  "readStyle [] key val style = style"
| "readStyle ((type, attr) # rest) key val style =
     (if key = attr then style(type := val) else readStyle rest key val style)"

text \<open>
  The loop of \<^verbatim>\<open>readConfig\<close> over \<^verbatim>\<open>applications\<close>: the first application whose id
  is the key takes \<^verbatim>\<open>stoi(val)\<close> as its count. Nothing catches what \<^verbatim>\<open>stoi\<close> throws, in
  \<^verbatim>\<open>readConfig\<close> or in \<^verbatim>\<open>main\<close>: the exception ends the process, which \<open>Inl\<close> stands for.
\<close>

fun readCount :: "Application list \<Rightarrow> string \<Rightarrow> string \<Rightarrow> error + Application list" where
  "readCount [] key val = Inr []"
| "readCount (a # as) key val =
     (if app_id a = key
      then (case stoi val of Inl e \<Rightarrow> Inl e | Inr n \<Rightarrow> Inr (a\<lparr>app_count := n\<rparr> # as))
      else (case readCount as key val of Inl e \<Rightarrow> Inl e | Inr as' \<Rightarrow> Inr (a # as')))"

text \<open>
  The body of the loop over the lines of the file, on the pair of the variables \<^verbatim>\<open>style\<close>
  and \<^verbatim>\<open>applications\<close>. \<^verbatim>\<open>line.substr(i + 1)\<close> cannot throw: \<open>i\<close> is a position of the line.
\<close>

type_synonym config = "(StyleAttribute \<Rightarrow> string) \<times> Application list"

definition readLine :: "string \<Rightarrow> config \<Rightarrow> error + config" where
  "readLine line c =
     (case find_last_of line ''='' of
        None \<Rightarrow> Inr c
      | Some i \<Rightarrow>
          (let key = take i line; val = drop (i + 1) line
           in if find_str key ''/'' = None
              then Inr (readStyle STYLE_ATTRIBUTES key val (fst c), snd c)
              else (case readCount (snd c) key val of
                      Inl e \<Rightarrow> Inl e
                    | Inr apps \<Rightarrow> Inr (fst c, apps))))"

fun readLines :: "string list \<Rightarrow> config \<Rightarrow> error + config" where
  "readLines [] c = Inr c"
| "readLines (line # ls) c =
     (case readLine line c of Inl e \<Rightarrow> Inl e | Inr c' \<Rightarrow> readLines ls c')"

text \<open>
  \<open>file\<close> is the content of \<^verbatim>\<open>CONFIG\<close>, \<open>None\<close> when \<^verbatim>\<open>stat\<close> fails and \<^verbatim>\<open>readConfig\<close>
  returns at once.
\<close>

definition readConfig :: "string option \<Rightarrow> config \<Rightarrow> error + config" where
  "readConfig file c =
     (case file of
        None \<Rightarrow> Inr c
      | Some content \<Rightarrow> readLines (getline_all (CHR 0x0A) content) c)"

text \<open>\<^verbatim>\<open>writeConfig\<close>: the bytes it writes to \<^verbatim>\<open>CONFIG\<close>, which it truncates first.\<close>

fun writeStyle :: "(StyleAttribute \<times> string) list \<Rightarrow> (StyleAttribute \<Rightarrow> string) \<Rightarrow> string" where
  "writeStyle [] style = []"
| "writeStyle ((type, attr) # rest) style =
     (if style type \<noteq> DEFAULT_STYLE type
      then attr @ ''='' @ style type @ [CHR 0x0A] @ writeStyle rest style
      else writeStyle rest style)"

fun writeCounts :: "Application list \<Rightarrow> string" where
  "writeCounts [] = []"
| "writeCounts (a # as) =
     (if app_count a > 0
      then app_id a @ ''='' @ to_string (app_count a) @ [CHR 0x0A] @ writeCounts as
      else writeCounts as)"

definition writeConfig :: "config \<Rightarrow> string" where
  "writeConfig c =
     ''[Style]'' @ [CHR 0x0A] @ writeStyle STYLE_ATTRIBUTES (fst c)
     @ [CHR 0x0A] @ ''[Application Launch Counts]'' @ [CHR 0x0A] @ writeCounts (snd c)"

section \<open>Editing the query: \<^verbatim>\<open>onKeyPress\<close>\<close>

text \<open>
  The process-wide variables that \<^verbatim>\<open>onKeyPress\<close> and the event loop of \<^verbatim>\<open>main\<close> read
  and assign.
\<close>

record globals =
  query :: string
  queryi :: string
  selected :: int
  cursor :: int
  results :: "Result list"

text \<open>
  The key symbols that have a \<^verbatim>\<open>case\<close> of their own in the \<^verbatim>\<open>switch\<close>; \<open>XK_other\<close>
  stands for every other key symbol, which takes the \<^verbatim>\<open>default\<close> branch.
\<close>

datatype KeySym =
  XK_Escape | XK_Return | XK_Up | XK_Down | XK_Left | XK_Right | XK_Home | XK_End
| XK_BackSpace | XK_Delete | XK_other

text \<open>
  What a call of \<^verbatim>\<open>onKeyPress\<close> ends in: \<^verbatim>\<open>exit(0)\<close>, the launch of an application
  (after which the process exits too), an exception that nothing catches, a read of
  \<^verbatim>\<open>results\<close> outside its bounds (undefined behaviour), or a return with the variables
  updated.
\<close>

datatype outcome = Exits | Launches nat | Throws error | Undefined | Returns globals

text \<open>An \<^verbatim>\<open>int\<close> converted to \<^verbatim>\<open>size_t\<close>, as in \<^verbatim>\<open>cursor < query.length()\<close>.\<close>

definition to_size_t :: "int \<Rightarrow> nat" where
  "to_size_t x = nat (x mod 2 ^ 64)"

text \<open>
  \<^verbatim>\<open>s.substr(pos, n)\<close> and \<^verbatim>\<open>s.erase(pos, n)\<close>: both throw \<^verbatim>\<open>std::out_of_range\<close> when
  \<open>pos\<close> is beyond the size of \<open>s\<close>, and both cut \<open>n\<close> down to what is left of \<open>s\<close>.
\<close>

definition substr :: "string \<Rightarrow> nat \<Rightarrow> nat \<Rightarrow> error + string" where
  "substr s pos n = (if length s < pos then Inl OutOfRange else Inr (take n (drop pos s)))"

definition erase :: "string \<Rightarrow> nat \<Rightarrow> nat \<Rightarrow> error + string" where
  "erase s pos n = (if length s < pos then Inl OutOfRange else Inr (take pos s @ drop (pos + n) s))"

text \<open>
  \<^verbatim>\<open>text\<close> is a zero-initialised buffer of 128 bytes that \<^verbatim>\<open>Xutf8LookupString\<close> fills;
  the model's \<open>text\<close> is the bytes it stored, whose number is \<^verbatim>\<open>textlength\<close>. In
  \<^verbatim>\<open>... + text + ...\<close> the buffer is read as a C string: up to its first zero byte.
\<close>

definition c_str :: "string \<Rightarrow> string" where
  "c_str text = takeWhile (\<lambda>c. c \<noteq> CHR 0x00) text"

text \<open>The statement after the \<^verbatim>\<open>switch\<close>, and the return.\<close>

definition after_switch :: "globals \<Rightarrow> outcome" where
  "after_switch g = Returns (g\<lparr>queryi := lowercase (query g)\<rparr>)"

definition onKeyPress :: "KeySym \<Rightarrow> string \<Rightarrow> globals \<Rightarrow> outcome" where
  "onKeyPress keysym text g =
     (case keysym of
        XK_Escape \<Rightarrow> Exits
      | XK_Return \<Rightarrow>
          (if 0 \<le> selected g \<and> selected g < int (length (results g))
           then Launches (app (results g ! nat (selected g)))
           else Undefined)
      | XK_Up \<Rightarrow>
          after_switch (g\<lparr>selected :=
            (if selected g > 0 then selected g - 1
             else if results g = [] then - 1 else int (length (results g)) - 1)\<rparr>)
      | XK_Down \<Rightarrow>
          after_switch (g\<lparr>selected :=
            (if to_size_t (selected g)
                  < (if results g = [] then 2 ^ 64 - 1 else length (results g) - 1)
             then selected g + 1 else 0)\<rparr>)
      | XK_Left \<Rightarrow>
          after_switch (g\<lparr>cursor := (if cursor g > 0 then cursor g - 1 else 0)\<rparr>)
      | XK_Right \<Rightarrow>
          after_switch (g\<lparr>cursor :=
            (if to_size_t (cursor g) < length (query g) then cursor g + 1
             else int (length (query g)))\<rparr>)
      | XK_Home \<Rightarrow> after_switch (g\<lparr>cursor := 0\<rparr>)
      | XK_End \<Rightarrow> after_switch (g\<lparr>cursor := int (length (query g))\<rparr>)
      | XK_BackSpace \<Rightarrow>
          (if cursor g > 0
           then (case erase (query g) (to_size_t (cursor g - 1)) 1 of
                   Inl e \<Rightarrow> Throws e
                 | Inr q \<Rightarrow> after_switch (g\<lparr>query := q, cursor := cursor g - 1\<rparr>))
           else after_switch g)
      | XK_Delete \<Rightarrow>
          (if to_size_t (cursor g) < length (query g)
           then (case erase (query g) (to_size_t (cursor g)) 1 of
                   Inl e \<Rightarrow> Throws e
                 | Inr q \<Rightarrow> after_switch (g\<lparr>query := q\<rparr>))
           else after_switch g)
      | XK_other \<Rightarrow>
          (if length text = 1
           then (case substr (query g) 0 (to_size_t (cursor g)) of
                   Inl e \<Rightarrow> Throws e
                 | Inr front \<Rightarrow>
                     (case substr (query g) (to_size_t (cursor g)) (length (query g)) of
                        Inl e \<Rightarrow> Throws e
                      | Inr rear \<Rightarrow>
                          after_switch
                            (g\<lparr>query := front @ c_str text @ rear, cursor := cursor g + 1\<rparr>)))
           else after_switch g))"

text \<open>
  A run of key presses, each handled as the event loop does: \<^verbatim>\<open>onKeyPress\<close>, then
  \<^verbatim>\<open>search\<close>, then \<^verbatim>\<open>selected\<close> is set to 0 when it is not below \<^verbatim>\<open>results.size()\<close>.
  The run stops at the first call that does not return.
\<close>

definition key_event ::
  "(Result list \<Rightarrow> Result list) \<Rightarrow> Application list \<Rightarrow> KeySym \<times> string \<Rightarrow> globals \<Rightarrow> outcome" where
  "key_event srt applications ev g =
     (case onKeyPress (fst ev) (snd ev) g of
        Returns g1 \<Rightarrow>
          (let g2 = g1\<lparr>results := search srt (queryi g1) applications\<rparr>
           in Returns (if length (results g2) \<le> to_size_t (selected g2)
                       then g2\<lparr>selected := 0\<rparr> else g2))
      | out \<Rightarrow> out)"

fun key_events ::
  "(Result list \<Rightarrow> Result list) \<Rightarrow> Application list \<Rightarrow> (KeySym \<times> string) list \<Rightarrow> globals
     \<Rightarrow> outcome" where
  "key_events srt applications [] g = Returns g"
| "key_events srt applications (ev # evs) g =
     (case key_event srt applications ev g of
        Returns g' \<Rightarrow> key_events srt applications evs g'
      | out \<Rightarrow> out)"

section \<open>Applications and notions used in the statements\<close>

text \<open>
  The application of the specification's worked example.
\<close>

definition firefox_app :: Application where
  "firefox_app =
     \<lparr>app_id = ''/usr/share/applications/firefox.desktop'', app_name = ''Firefox'',
      genericName = [], comment = [], cmd = ''firefox'',
      app_keywords = [\<lparr>word = ''firefox'', weight = 1000\<rparr>, \<lparr>word = ''web'', weight = 1\<rparr>,
                      \<lparr>word = ''browser'', weight = 1\<rparr>],
      app_count = 5\<rparr>"

text \<open>
  The same application after \<^verbatim>\<open>readConfig\<close> read the count 2000000000 for it, which
  \<^verbatim>\<open>std::stoi\<close> accepts.
\<close>

definition big_count_app :: Application where
  "big_count_app = firefox_app\<lparr>app_count := 2000000000\<rparr>"

text \<open>Eleven applications that differ in their counts, 0 to 10, and so in their scores.\<close>

definition eleven_apps :: "Application list" where
  "eleven_apps = map (\<lambda>n. firefox_app\<lparr>app_count := int n\<rparr>) [0..<11]"

text \<open>
  A desktop file with 101 keyword hints, of which only the last holds the letter a, the
  application \<^verbatim>\<open>getApplications\<close> makes of it, and eleven such applications under
  different paths.
\<close>

definition deep_file :: string where
  "deep_file =
     ''[Desktop Entry]'' @ [CHR 0x0A] @ ''Keywords='' @ concat (replicate 100 ''x '') @ ''a''
       @ [CHR 0x0A]"

definition deep_app :: Application where
  "deep_app = read_application ''/usr/share/applications/deep.desktop'' deep_file"

definition deep_apps :: "Application list" where
  "deep_apps =
     map (\<lambda>n. read_application (''/usr/share/applications/deep'' @ digits n @ ''.desktop'')
                 deep_file) [0..<11]"

text \<open>
  A desktop file with 315 keyword hints without the letter a and a name that starts with
  it, and the application \<^verbatim>\<open>getApplications\<close> makes of it: the name is its keyword at
  index 315, with weight 1000.
\<close>

definition long_file :: string where
  "long_file =
     ''[Desktop Entry]'' @ [CHR 0x0A] @ ''Keywords='' @ concat (replicate 314 ''x '') @ ''x''
       @ [CHR 0x0A] @ ''Name=Abc'' @ [CHR 0x0A]"

definition long_app :: Application where
  "long_app = read_application ''/usr/share/applications/long.desktop'' long_file"

text \<open>
  Two applications whose first keyword holds the query \<open>fire\<close>, one at its start and one
  further in; the second has been launched a million times. A third, whose first keyword
  has weight 1000 as that of \<open>big_count_app\<close> and holds the query further in.
\<close>

definition bonfire_app :: Application where
  "bonfire_app =
     \<lparr>app_id = ''/usr/share/applications/bonfire.desktop'', app_name = ''Bonfire'',
      genericName = [], comment = [], cmd = ''bonfire'',
      app_keywords = [\<lparr>word = ''bonfire'', weight = 1000\<rparr>, \<lparr>word = [], weight = 1\<rparr>],
      app_count = 0\<rparr>"

definition firewall_app :: Application where
  "firewall_app =
     \<lparr>app_id = ''/usr/share/applications/firewall.desktop'', app_name = [],
      genericName = [], comment = [], cmd = ''firewall-config'',
      app_keywords = [\<lparr>word = ''firewall'', weight = 1\<rparr>], app_count = 0\<rparr>"

definition campfire_app :: Application where
  "campfire_app =
     \<lparr>app_id = ''/usr/share/applications/campfire.desktop'', app_name = [],
      genericName = [], comment = [], cmd = ''campfire'',
      app_keywords = [\<lparr>word = ''campfire'', weight = 1\<rparr>], app_count = 1000000\<rparr>"

text \<open>
  A query matches an application when one of its keywords holds the query as a
  contiguous substring.
\<close>

definition app_matches :: "string \<Rightarrow> Application \<Rightarrow> bool" where
  "app_matches q a \<longleftrightarrow> (\<exists>kw \<in> set (app_keywords a). sublist q (word kw))"

text \<open>
  A string has an empty field before one of its spaces when it begins with a space or
  has two spaces in a row.
\<close>

definition empty_field :: "string \<Rightarrow> bool" where
  "empty_field s \<longleftrightarrow> prefix '' '' s \<or> sublist ''  '' s"

text \<open>
  What the indexer is compared with, said without \<^verbatim>\<open>getline\<close> and without the loops of the
  source. \<open>spec_fields d s\<close> are the fields of \<open>s\<close> between its delimiters \<open>d\<close>, empty ones
  included: one more than \<open>s\<close> has delimiters, so never none (lemma \<open>spec_fields_not_Nil\<close>).
  \<open>spec_tokens s\<close> are the fields between the
  spaces of \<open>s\<close>, without the last one when that is empty. \<open>spec_hint_values ls\<close> are the
  values of the lines of \<open>ls\<close> that start with \<^verbatim>\<open>Keywords=\<close>, as far as they come before the
  first line that starts with \<^verbatim>\<open>Exec=\<close> and has a value.
\<close>

fun spec_fields :: "char \<Rightarrow> string \<Rightarrow> string list" where
  "spec_fields d [] = [[]]"
| "spec_fields d (c # s) =
     (if c = d then [] # spec_fields d s
      else (case spec_fields d s of [] \<Rightarrow> [[c]] | f # fs \<Rightarrow> (c # f) # fs))"

definition spec_tokens :: "string \<Rightarrow> string list" where
  "spec_tokens s =
     (if last (spec_fields CHR '' '' s) = [] then butlast (spec_fields CHR '' '' s)
      else spec_fields CHR '' '' s)"

fun spec_hint_values :: "string list \<Rightarrow> string list" where
  "spec_hint_values [] = []"
| "spec_hint_values (l # ls) =
     (if prefix ''Exec='' l \<and> drop 5 l \<noteq> [] then []
      else if prefix ''Keywords='' l then drop 9 l # spec_hint_values ls
      else spec_hint_values ls)"

text \<open>
  Two applications as the indexer makes them of desktop files with a name and a command,
  with count 0 as at the start of a process.
\<close>

definition calc_app :: Application where
  "calc_app =
     \<lparr>app_id = ''/usr/share/applications/calc.desktop'', app_name = ''Calc'',
      genericName = [], comment = [], cmd = ''calc'',
      app_keywords = [\<lparr>word = ''calc'', weight = 1000\<rparr>, \<lparr>word = [], weight = 1\<rparr>],
      app_count = 0\<rparr>"

definition edit_app :: Application where
  "edit_app =
     \<lparr>app_id = ''/usr/share/applications/edit.desktop'', app_name = ''Edit'',
      genericName = [], comment = [], cmd = ''edit'',
      app_keywords = [\<lparr>word = ''edit'', weight = 1000\<rparr>, \<lparr>word = [], weight = 1\<rparr>],
      app_count = 0\<rparr>"

text \<open>
  The application the indexer makes of a desktop file whose name holds a line feed, which
  a file name may, after five launches.
\<close>

definition newline_app :: Application where
  "newline_app =
     \<lparr>app_id = ''/usr/share/applications/two'' @ [CHR 0x0A] @ ''lines.desktop'',
      app_name = ''Two'', genericName = [], comment = [], cmd = ''two'',
      app_keywords = [\<lparr>word = ''two'', weight = 1000\<rparr>, \<lparr>word = [], weight = 1\<rparr>],
      app_count = 5\<rparr>"

text \<open>
  The name of a style attribute in the configuration file, an application with its count
  set back to 0 (its state in a new process, before \<^verbatim>\<open>readConfig\<close>), and the values that
  a style attribute can hold: \<^verbatim>\<open>readConfig\<close> takes a value from behind the last equals sign
  of a line, so a value has neither an equals sign nor a line feed (lemma
  \<open>readConfig_plain\<close>).
\<close>

definition attribute_name :: "StyleAttribute \<Rightarrow> string" where
  "attribute_name t = the (map_of STYLE_ATTRIBUTES t)"

definition zero_count :: "Application \<Rightarrow> Application" where
  "zero_count a = a\<lparr>app_count := 0\<rparr>"

definition plain_value :: "string \<Rightarrow> bool" where
  "plain_value v \<longleftrightarrow> CHR ''='' \<notin> set v \<and> CHR 0x0A \<notin> set v"

text \<open>The weights that the indexer gives to keywords.\<close>

definition indexer_weights :: "Application \<Rightarrow> bool" where
  "indexer_weights a \<longleftrightarrow> (\<forall>kw \<in> set (app_keywords a). weight kw = 1 \<or> weight kw = 1000)"

text \<open>
  The cursor is a position of the query, and the keys that move the cursor or edit the
  query.
\<close>

definition cursor_ok :: "globals \<Rightarrow> bool" where
  "cursor_ok g \<longleftrightarrow> 0 \<le> cursor g \<and> cursor g \<le> int (length (query g))"

definition cursor_key :: "KeySym \<Rightarrow> bool" where
  "cursor_key k \<longleftrightarrow> k \<in> {XK_Left, XK_Right, XK_Home, XK_End, XK_BackSpace, XK_Delete, XK_other}"

section \<open>Facts about the model\<close>

subsection \<open>Finding a substring and scanning the keywords\<close>

lemma find_str_Some_iff:
  "find_str s q = Some m \<longleftrightarrow>
     m \<le> length s \<and> prefix q (drop m s) \<and> (\<forall>j<m. \<not> prefix q (drop j s))"
proof (induction s arbitrary: m)
  case Nil
  then show ?case by auto
next
  case (Cons c s)
  show ?case
  proof (cases "prefix q (c # s)")
    case True
    then show ?thesis by (cases m) auto
  next
    case False
    show ?thesis
    proof (cases m)
      case 0
      with False show ?thesis by simp
    next
      case (Suc n)
      have "(\<forall>j<Suc n. \<not> prefix q (drop j (c # s))) \<longleftrightarrow> (\<forall>j<n. \<not> prefix q (drop j s))"
        using False by (auto simp: less_Suc_eq_0_disj)
      with False Suc Cons.IH[of n] show ?thesis by auto
    qed
  qed
qed

lemma find_str_None_iff: "find_str s q = None \<longleftrightarrow> \<not> sublist q s"
  by (induction s) (auto simp: sublist_Cons_right)

lemma find_str_Some_0_iff: "find_str s q = Some 0 \<longleftrightarrow> prefix q s"
  by (cases s) auto

lemma int32_eqI: "x mod 2 ^ 32 = y mod 2 ^ 32 \<Longrightarrow> int32 x = int32 y"
  unfolding int32_def by (metis mod_add_left_eq)

lemma int32_mod: "int32 x mod 2 ^ 32 = x mod 2 ^ 32"
proof -
  have "int32 x = (x + 2 ^ 31) mod 2 ^ 32 + (- (2 ^ 31))" by (simp add: int32_def)
  then have "int32 x mod 2 ^ 32 = ((x + 2 ^ 31) + (- (2 ^ 31))) mod 2 ^ 32"
    by (simp only: mod_add_left_eq)
  then show ?thesis by simp
qed

lemma int32_id: "- (2 ^ 31) \<le> x \<Longrightarrow> x < 2 ^ 31 \<Longrightarrow> int32 x = x"
  by (simp add: int32_def)

lemma int32_mult_left: "int32 (int32 a * b) = int32 (a * b)"
  by (rule int32_eqI) (metis int32_mod mod_mult_left_eq)

lemma int32_add_left: "int32 (int32 a + b) = int32 (a + b)"
  by (rule int32_eqI) (metis int32_mod mod_add_left_eq)

lemma int32_score:
  "int32 (int32 (int32 (int32 (100 - i) * w) * f) + c) = int32 ((100 - i) * w * f + c)"
  by (simp only: int32_mult_left int32_add_left)

lemma scan_keywords_cong:
  "n mod 2 ^ 32 = n' mod 2 ^ 32 \<Longrightarrow> scan_keywords q cnt n ks = scan_keywords q cnt n' ks"
proof (induction ks arbitrary: n n')
  case Nil
  then show ?case by simp
next
  case (Cons k ks)
  have "(100 - n) mod 2 ^ 32 = (100 - n') mod 2 ^ 32"
    using Cons.prems by (metis mod_diff_right_eq)
  then have a: "int32 (100 - n) = int32 (100 - n')" by (rule int32_eqI)
  have "(n + 1) mod 2 ^ 32 = (n' + 1) mod 2 ^ 32"
    using Cons.prems by (metis mod_add_left_eq)
  then have "int32 (n + 1) mod 2 ^ 32 = int32 (n' + 1) mod 2 ^ 32"
    by (simp only: int32_mod)
  then have b: "scan_keywords q cnt (int32 (n + 1)) ks = scan_keywords q cnt (int32 (n' + 1)) ks"
    by (rule Cons.IH)
  show ?case by (simp add: a b split: option.splits)
qed

lemma scan_keywords_next:
  "scan_keywords q cnt (int32 (n + 1)) ks = scan_keywords q cnt (n + 1) ks"
  by (rule scan_keywords_cong) (rule int32_mod)

lemma scan_keywords_first:
  assumes "i < length ks" and "sublist q (word (ks ! i))"
    and "\<forall>j<i. \<not> sublist q (word (ks ! j))"
  shows "scan_keywords q cnt n (ks @ later) =
           int32 ((100 - (n + int i)) * weight (ks ! i)
                    * (if prefix q (word (ks ! i)) then 10000 else 100) + cnt)"
  using assms
proof (induction ks arbitrary: i n)
  case Nil
  then show ?case by simp
next
  case (Cons k ks)
  show ?case
  proof (cases i)
    case 0
    with Cons.prems obtain m where m: "find_str (word k) q = Some m"
      using find_str_None_iff[of "word k" q] by auto
    have "m = 0 \<longleftrightarrow> prefix q (word k)"
      using m find_str_Some_0_iff[of "word k" q] by auto
    with m 0 show ?thesis by (simp add: int32_score)
  next
    case (Suc i')
    with Cons.prems have "\<not> sublist q (word k)" by auto
    then have none: "find_str (word k) q = None" by (simp add: find_str_None_iff)
    have step: "scan_keywords q cnt n ((k # ks) @ later) = scan_keywords q cnt (n + 1) (ks @ later)"
      using none by (simp add: scan_keywords_next)
    have ih: "scan_keywords q cnt (n + 1) (ks @ later) =
           int32 ((100 - ((n + 1) + int i')) * weight (ks ! i')
                    * (if prefix q (word (ks ! i')) then 10000 else 100) + cnt)"
      using Cons.prems Suc by (intro Cons.IH) auto
    have eq: "100 - ((n + 1) + int i') = 100 - (n + int (Suc i'))" by simp
    show ?thesis unfolding Suc step ih eq by simp
  qed
qed

lemma scan_keywords_none:
  "(\<forall>k \<in> set ks. \<not> sublist q (word k)) \<Longrightarrow> scan_keywords q cnt n ks = 0"
  by (induction ks arbitrary: n) (auto simp: find_str_None_iff[symmetric])

lemma app_score_first:
  assumes "i < length (app_keywords a)" and "sublist q (word (app_keywords a ! i))"
    and "\<forall>j<i. \<not> sublist q (word (app_keywords a ! j))"
  shows "app_score q a =
           int32 ((100 - int i) * weight (app_keywords a ! i)
                    * (if prefix q (word (app_keywords a ! i)) then 10000 else 100)
                  + app_count a)"
  using scan_keywords_first[OF assms, of "app_count a" 0 "[]"] by (simp add: app_score_def)

lemma score_fits_int32:
  assumes "w = 1 \<or> w = 1000" and "f = 100 \<or> f = 10000" and "i \<le> 313"
    and "0 \<le> c" and "c \<le> 1147483647"
  shows "- (2 ^ 31) \<le> (100 - int i) * w * f + c \<and> (100 - int i) * w * f + c < 2 ^ 31"
proof -
  have "- 213 \<le> 100 - int i" and "100 - int i \<le> 100" using assms(3) by simp_all
  with assms(1,2,4,5) show ?thesis by auto
qed

subsection \<open>The loop over the applications, sorting and the cut to ten\<close>

lemma collect_set:
  "r \<in> set (collect q k as) \<longleftrightarrow>
     (\<exists>j<length as. r = \<lparr>app = k + j, score = app_score q (as ! j)\<rparr> \<and> 0 < app_score q (as ! j))"
proof (induction as arbitrary: k)
  case Nil
  then show ?case by simp
next
  case (Cons a as)
  have split: "(\<exists>j<Suc (length as). P j) \<longleftrightarrow> P 0 \<or> (\<exists>j<length as. P (Suc j))" for P
    by (auto simp: less_Suc_eq_0_disj)
  show ?case
    by (simp add: split Cons.IH[of "Suc k"])
qed

lemma collect_app_ge: "r \<in> set (collect q k as) \<Longrightarrow> k \<le> app r"
  by (auto simp: collect_set)

lemma distinct_collect: "distinct (map app (collect q k as))"
proof (induction as arbitrary: k)
  case Nil
  then show ?case by simp
next
  case (Cons a as)
  have "k \<notin> app ` set (collect q (Suc k) as)"
    using collect_app_ge[of _ q "Suc k" as] by fastforce
  with Cons.IH[of "Suc k"] show ?case by simp
qed

lemma length_collect:
  "length (collect q k as) = length (filter (\<lambda>a. 0 < app_score q a) as)"
  by (induction as arbitrary: k) auto

lemma std_sort_set: "std_sort srt \<Longrightarrow> set (srt rs) = set rs"
  unfolding std_sort_def by (metis set_mset_mset)

lemma std_sort_length: "std_sort srt \<Longrightarrow> length (srt rs) = length rs"
  unfolding std_sort_def by (metis size_mset)

lemma std_sort_sorted:
  "std_sort srt \<Longrightarrow> sorted_wrt (\<lambda>a b. \<not> score a < score b) (srt rs)"
  unfolding std_sort_def by blast

lemma std_sort_distinct:
  assumes "std_sort srt" and "distinct (map app rs)"
  shows "distinct (map app (srt rs))"
proof -
  have "mset (map app (srt rs)) = mset (map app rs)"
    using assms(1) unfolding std_sort_def by (metis mset_map)
  then show ?thesis
    using assms(2) by (metis mset_eq_imp_distinct_iff)
qed

lemma mset_insert_desc: "mset (insert_desc r xs) = add_mset r (mset xs)"
  by (induction xs) auto

lemma set_insert_desc: "set (insert_desc r xs) = insert r (set xs)"
  by (induction xs) auto

lemma sorted_insert_desc:
  "sorted_wrt (\<lambda>a b. \<not> score a < score b) xs
     \<Longrightarrow> sorted_wrt (\<lambda>a b. \<not> score a < score b) (insert_desc r xs)"
  by (induction xs) (auto simp: set_insert_desc)

lemma std_sort_sort_desc: "std_sort sort_desc"
proof -
  have "mset (sort_desc rs) = mset rs" for rs
    by (induction rs) (auto simp: mset_insert_desc)
  moreover have "sorted_wrt (\<lambda>a b. \<not> score a < score b) (sort_desc rs)" for rs
    by (induction rs) (auto simp: sorted_insert_desc)
  ultimately show ?thesis by (simp add: std_sort_def)
qed

lemma search_set:
  assumes "std_sort srt"
  shows "set (search srt q apps) \<subseteq> set (collect q 0 apps)"
  using std_sort_set[OF assms, of "collect q 0 apps"]
  by (auto simp: search_def Let_def dest: in_set_takeD)

lemma search_member:
  assumes "std_sort srt" and "r \<in> set (search srt q apps)"
  shows "app r < length apps \<and> score r = app_score q (apps ! app r) \<and> 0 < score r"
proof -
  have "r \<in> set (collect q 0 apps)"
    using search_set[OF assms(1), of q apps] assms(2) by blast
  then show ?thesis by (auto simp: collect_set)
qed

lemma collect_all_zero:
  "(\<forall>a \<in> set as. app_score q a \<le> 0) \<Longrightarrow> collect q k as = []"
  by (induction as arbitrary: k) auto

lemma search_top:
  assumes "std_sort srt" and "q \<noteq> []"
  shows "search srt q apps = take 10 (srt (collect q 0 apps))"
  using assms(2) by (simp add: search_def Let_def)

subsection \<open>The example applications\<close>

lemma deep_app_eq:
  "deep_app =
     \<lparr>app_id = ''/usr/share/applications/deep.desktop'', app_name = [],
      genericName = [], comment = [], cmd = [],
      app_keywords = replicate 100 \<lparr>word = ''x'', weight = 1\<rparr>
                       @ [\<lparr>word = ''a'', weight = 1\<rparr>, \<lparr>word = [], weight = 1\<rparr>],
      app_count = 0\<rparr>"
  by code_simp

lemma deep_app_first:
  "100 < length (app_keywords deep_app)"
  "sublist ''a'' (word (app_keywords deep_app ! 100))"
  "\<forall>j<100. \<not> sublist ''a'' (word (app_keywords deep_app ! j))"
  by (simp_all add: deep_app_eq nth_append sublist_code)

subsection \<open>Reading fields up to a delimiter\<close>

lemma getline_all_Nil: "getline_all d [] = []"
  by (subst getline_all.simps) (simp add: getline_def)

lemma getline_all_append:
  assumes "d \<notin> set l"
  shows "getline_all d (l @ d # rest) = l # getline_all d rest"
proof -
  have "takeWhile (\<lambda>c. c \<noteq> d) (l @ d # rest) = l"
    using assms by (induction l) auto
  moreover have "dropWhile (\<lambda>c. c \<noteq> d) (l @ d # rest) = d # rest"
    using assms by (induction l) auto
  ultimately show ?thesis
    by (subst getline_all.simps) (simp add: getline_def)
qed

lemma getline_all_last:
  assumes "d \<notin> set l" and "l \<noteq> []"
  shows "getline_all d l = [l]"
proof -
  have tw: "takeWhile (\<lambda>c. c \<noteq> d) l = l" and dw: "dropWhile (\<lambda>c. c \<noteq> d) l = []"
    using assms(1) by (induction l) auto
  show ?thesis
    using assms(2) by (subst getline_all.simps) (simp add: getline_def getline_all_Nil tw dw)
qed

lemma getline_all_Cons:
  "getline_all d (c # s) =
     (if c = d then [] # getline_all d s
      else (case getline_all d s of [] \<Rightarrow> [[c]] | w # ws \<Rightarrow> (c # w) # ws))"
proof (cases "c = d")
  case True
  then show ?thesis using getline_all_append[of d "[]" s] by simp
next
  case False
  show ?thesis
  proof (cases s)
    case Nil
    with False show ?thesis
      using getline_all_last[of d "[c]"] by (simp add: getline_all_Nil)
  next
    case (Cons c' s')
    have "getline_all d (c # s) =
            (c # takeWhile (\<lambda>c. c \<noteq> d) s) # getline_all d (drop 1 (dropWhile (\<lambda>c. c \<noteq> d) s))"
      using False by (subst getline_all.simps) (simp add: getline_def)
    moreover have "getline_all d s =
            takeWhile (\<lambda>c. c \<noteq> d) s # getline_all d (drop 1 (dropWhile (\<lambda>c. c \<noteq> d) s))"
      using Cons by (subst getline_all.simps) (simp add: getline_def)
    ultimately show ?thesis using False by simp
  qed
qed

lemma getline_all_hd:
  "(getline_all d s \<noteq> [] \<and> hd (getline_all d s) = []) \<longleftrightarrow> prefix [d] s"
  by (cases s) (auto simp: getline_all_Nil getline_all_Cons split: list.splits)

lemma getline_all_tl:
  "[] \<in> set (tl (getline_all d s)) \<longleftrightarrow> sublist [d, d] s"
proof (induction s)
  case Nil
  then show ?case by (simp add: getline_all_Nil)
next
  case (Cons c s)
  show ?case
  proof (cases "c = d")
    case True
    have "[] \<in> set (getline_all d s) \<longleftrightarrow>
            (getline_all d s \<noteq> [] \<and> hd (getline_all d s) = []) \<or> [] \<in> set (tl (getline_all d s))"
      by (cases "getline_all d s") auto
    then have "[] \<in> set (getline_all d s) \<longleftrightarrow> prefix [d] s \<or> sublist [d, d] s"
      by (simp add: getline_all_hd Cons.IH)
    with True show ?thesis
      by (simp add: getline_all_Cons sublist_Cons_right)
  next
    case False
    have "tl (getline_all d (c # s)) = tl (getline_all d s)"
      using False by (simp add: getline_all_Cons split: list.splits)
    with False Cons.IH show ?thesis
      by (simp add: sublist_Cons_right)
  qed
qed

lemma getline_all_empty_iff:
  "[] \<in> set (getline_all d s) \<longleftrightarrow> prefix [d] s \<or> sublist [d, d] s"
proof -
  have "[] \<in> set (getline_all d s) \<longleftrightarrow>
          (getline_all d s \<noteq> [] \<and> hd (getline_all d s) = []) \<or> [] \<in> set (tl (getline_all d s))"
    by (cases "getline_all d s") auto
  then show ?thesis by (simp add: getline_all_hd getline_all_tl)
qed

lemma tolower_space: "tolower c = CHR '' '' \<longleftrightarrow> c = CHR '' ''"
proof
  assume t: "tolower c = CHR '' ''"
  show "c = CHR '' ''"
  proof (cases "65 \<le> (of_char c :: nat) \<and> (of_char c :: nat) \<le> 90")
    case True
    with t have "char_of (of_char c + (32::nat)) = CHR '' ''"
      by (simp add: tolower_def Let_def)
    then have "(of_char (char_of (of_char c + (32::nat)) :: char) :: nat) = of_char CHR '' ''"
      by simp
    then have "(of_char c + 32) mod 256 = (32::nat)" by simp
    with True show ?thesis by simp
  next
    case False
    with t show ?thesis by (auto simp: tolower_def Let_def)
  qed
next
  assume "c = CHR '' ''"
  then show "tolower c = CHR '' ''" by (simp add: tolower_def)
qed

lemma lowercase_prefix_space: "prefix '' '' (lowercase s) \<longleftrightarrow> prefix '' '' s"
proof (cases s)
  case Nil
  then show ?thesis by (simp add: lowercase_def)
next
  case (Cons c s')
  have "prefix '' '' (lowercase s) \<longleftrightarrow> tolower c = CHR '' ''"
    using Cons by (auto simp: lowercase_def)
  moreover have "prefix '' '' s \<longleftrightarrow> c = CHR '' ''"
    using Cons by auto
  ultimately show ?thesis by (simp add: tolower_space)
qed

lemma sublist_two_Cons:
  "sublist [d, d] (c # s) \<longleftrightarrow> (c = d \<and> prefix [d] s) \<or> sublist [d, d] s"
  by (auto simp: sublist_Cons_right)

lemma lowercase_sublist_spaces: "sublist ''  '' (lowercase s) \<longleftrightarrow> sublist ''  '' s"
proof (induction s)
  case Nil
  then show ?case by (simp add: lowercase_def)
next
  case (Cons c s)
  have "lowercase (c # s) = tolower c # lowercase s" by (simp add: lowercase_def)
  then show ?case
    using Cons.IH lowercase_prefix_space[of s]
    by (simp only: sublist_two_Cons tolower_space)
qed

lemma empty_field_lowercase: "empty_field (lowercase s) \<longleftrightarrow> empty_field s"
  by (simp add: empty_field_def lowercase_prefix_space lowercase_sublist_spaces)

lemma push_words_empty:
  "(\<exists>kw \<in> set (push_words w s). word kw = []) \<longleftrightarrow> empty_field s"
  using getline_all_empty_iff[of "CHR '' ''" s]
  by (auto simp: push_words_def empty_field_def image_iff)

subsection \<open>The ids and the weights that the indexer assigns\<close>

lemma app_id_read_fields:
  "app_id (read_name line a) = app_id a"
  "app_id (read_genericName line a) = app_id a"
  "app_id (read_comment line a) = app_id a"
  "app_id (read_cmd line a) = app_id a"
  "app_id (read_keywords line a) = app_id a"
  by (simp_all add: read_name_def read_genericName_def read_comment_def read_cmd_def
      read_keywords_def)

lemma app_id_parse_line: "app_id (parse_line line a) = app_id a"
  by (simp only: parse_line_def app_id_read_fields)

lemma app_id_parse_lines: "app_id (parse_lines ls a) = app_id a"
  by (induction ls arbitrary: a) (simp_all add: app_id_parse_line)

lemma app_id_read_application: "app_id (read_application path content) = path"
  by (simp add: read_application_def index_keywords_def app_id_parse_lines)

lemma read_directories_id_slash:
  "read_directories ls dirs = Inr apps \<Longrightarrow> a \<in> set apps \<Longrightarrow> CHR ''/'' \<in> set (app_id a)"
proof (induction dirs arbitrary: apps)
  case Nil
  then show ?case by simp
next
  case (Cons dir dirs)
  show ?case
  proof (cases "ls dir")
    case Absent
    with Cons show ?thesis by simp
  next
    case NotIterable
    with Cons.prems show ?thesis by simp
  next
    case (Entries entries)
    with Cons.prems obtain rest where
      rest: "read_directories ls dirs = Inr rest" and
      apps: "apps = map (\<lambda>(name, content). read_application (dir @ ''/'' @ name) content)
                      entries @ rest"
      by (auto split: sum.splits)
    let ?new = "map (\<lambda>(name, content). read_application (dir @ ''/'' @ name) content) entries"
    have "a \<in> set ?new \<or> a \<in> set rest"
      using Cons.prems(2) unfolding apps by (simp only: set_append Un_iff)
    then show ?thesis
    proof
      assume "a \<in> set ?new"
      then show ?thesis by (auto simp: app_id_read_application)
    next
      assume "a \<in> set rest"
      with Cons.IH[OF rest] show ?thesis by simp
    qed
  qed
qed

lemma getApplications_id_slash:
  "getApplications data_dir ls = Inr apps \<Longrightarrow> a \<in> set apps \<Longrightarrow> CHR ''/'' \<in> set (app_id a)"
  unfolding getApplications_def by (rule read_directories_id_slash)

lemma getApplications_not_iterable:
  "ls ''/usr/share/applications'' = NotIterable
     \<Longrightarrow> getApplications data_dir ls = Inl FilesystemError"
  by (simp add: getApplications_def APP_DIRS_def)

lemma app_keywords_read_fields:
  "app_keywords (read_name line a) = app_keywords a"
  "app_keywords (read_genericName line a) = app_keywords a"
  "app_keywords (read_comment line a) = app_keywords a"
  "app_keywords (read_cmd line a) = app_keywords a"
  by (simp_all add: read_name_def read_genericName_def read_comment_def read_cmd_def)

lemma indexer_weights_parse_line:
  assumes "indexer_weights a"
  shows "indexer_weights (parse_line line a)"
proof -
  let ?b = "read_cmd line (read_comment line (read_genericName line (read_name line a)))"
  have "app_keywords ?b = app_keywords a" by (simp add: app_keywords_read_fields)
  with assms have "indexer_weights ?b" by (simp add: indexer_weights_def)
  then have "indexer_weights (read_keywords line ?b)"
    by (auto simp: read_keywords_def indexer_weights_def push_words_def)
  then show ?thesis by (simp add: parse_line_def)
qed

lemma indexer_weights_parse_lines:
  "indexer_weights a \<Longrightarrow> indexer_weights (parse_lines ls a)"
  by (induction ls arbitrary: a) (simp_all add: indexer_weights_parse_line)

lemma indexer_weights_index_keywords:
  "indexer_weights a \<Longrightarrow> indexer_weights (index_keywords a)"
  by (auto simp: index_keywords_def indexer_weights_def push_words_def)

lemma read_application_weights:
  "kw \<in> set (app_keywords (read_application path content))
     \<Longrightarrow> weight kw = 1 \<or> weight kw = 1000"
proof -
  have "indexer_weights (read_application path content)"
    unfolding read_application_def
    by (intro indexer_weights_index_keywords indexer_weights_parse_lines)
       (simp add: indexer_weights_def)
  then show "kw \<in> set (app_keywords (read_application path content))
     \<Longrightarrow> weight kw = 1 \<or> weight kw = 1000"
    by (simp add: indexer_weights_def)
qed

subsection \<open>The keywords the indexer makes of a desktop file\<close>

lemma spec_fields_not_Nil: "spec_fields d s \<noteq> []"
  by (induction s) (auto split: list.splits)

lemma getline_all_spec_fields:
  "getline_all d s = (if last (spec_fields d s) = [] then butlast (spec_fields d s) else spec_fields d s)"
proof (induction s)
  case Nil
  then show ?case by (simp add: getline_all_Nil)
next
  case (Cons c s)
  obtain f fs where ffs: "spec_fields d s = f # fs"
    using spec_fields_not_Nil[of d s] by (cases "spec_fields d s") auto
  show ?case
  proof (cases "c = d")
    case True
    then show ?thesis
      using Cons.IH ffs by (simp add: getline_all_Cons)
  next
    case False
    show ?thesis
    proof (cases fs)
      case Nil
      with False Cons.IH ffs show ?thesis by (simp add: getline_all_Cons)
    next
      case (Cons g gs)
      with False Cons.IH ffs show ?thesis by (simp add: getline_all_Cons)
    qed
  qed
qed

lemma push_words_spec_tokens:
  "push_words w s = map (\<lambda>x. \<lparr>word = x, weight = w\<rparr>) (spec_tokens s)"
  by (simp only: push_words_def spec_tokens_def getline_all_spec_fields)

lemma spec_tokens_empty_iff: "[] \<in> set (spec_tokens s) \<longleftrightarrow> empty_field s"
  using getline_all_empty_iff[of "CHR '' ''" s]
  by (simp only: spec_tokens_def getline_all_spec_fields[symmetric] empty_field_def)

lemma cmd_read_fields:
  "cmd (read_name line a) = cmd a"
  "cmd (read_genericName line a) = cmd a"
  "cmd (read_comment line a) = cmd a"
  "cmd (read_keywords line a) = cmd a"
  by (simp_all add: read_name_def read_genericName_def read_comment_def read_keywords_def)

lemma parse_line_cmd_set:
  assumes "cmd a \<noteq> []"
  shows "cmd (parse_line l a) = cmd a" and "app_keywords (parse_line l a) = app_keywords a"
proof -
  let ?b = "read_comment l (read_genericName l (read_name l a))"
  have b: "cmd ?b = cmd a" "app_keywords ?b = app_keywords a"
    by (simp_all add: cmd_read_fields app_keywords_read_fields)
  have c: "read_cmd l ?b = ?b" using assms b by (simp add: read_cmd_def)
  have k: "read_keywords l ?b = ?b" using assms b by (simp add: read_keywords_def)
  show "cmd (parse_line l a) = cmd a" "app_keywords (parse_line l a) = app_keywords a"
    by (simp_all only: parse_line_def c k b)
qed

lemma parse_line_cmd_unset:
  assumes "cmd a = []"
  shows "cmd (parse_line l a) = (if prefix ''Exec='' l \<and> drop 5 l \<noteq> [] then drop 5 l else [])"
    and "app_keywords (parse_line l a) =
           (if prefix ''Exec='' l \<and> drop 5 l \<noteq> [] then app_keywords a
            else if prefix ''Keywords='' l
              then app_keywords a @ push_words 1 (lowercase (drop 9 l))
              else app_keywords a)"
proof -
  let ?b = "read_comment l (read_genericName l (read_name l a))"
  have b: "cmd ?b = []" "app_keywords ?b = app_keywords a"
    using assms by (simp_all add: cmd_read_fields app_keywords_read_fields)
  let ?c = "read_cmd l ?b"
  have c: "cmd ?c = (if prefix ''Exec='' l \<and> drop 5 l \<noteq> [] then drop 5 l else [])"
    "app_keywords ?c = app_keywords a"
    using b by (simp_all add: read_cmd_def find_str_Some_0_iff)
  show "cmd (parse_line l a) = (if prefix ''Exec='' l \<and> drop 5 l \<noteq> [] then drop 5 l else [])"
    unfolding parse_line_def by (simp only: cmd_read_fields c)
  show "app_keywords (parse_line l a) =
           (if prefix ''Exec='' l \<and> drop 5 l \<noteq> [] then app_keywords a
            else if prefix ''Keywords='' l
              then app_keywords a @ push_words 1 (lowercase (drop 9 l))
              else app_keywords a)"
    unfolding parse_line_def using c by (simp add: read_keywords_def find_str_Some_0_iff)
qed

lemma parse_lines_cmd_set:
  "cmd a \<noteq> [] \<Longrightarrow> app_keywords (parse_lines ls a) = app_keywords a"
proof (induction ls arbitrary: a)
  case Nil
  then show ?case by simp
next
  case (Cons l ls)
  have "cmd (parse_line l a) \<noteq> []" using Cons.prems by (simp add: parse_line_cmd_set)
  then show ?case
    using Cons.IH[of "parse_line l a"] Cons.prems by (simp add: parse_line_cmd_set)
qed

lemma parse_lines_hints:
  "cmd a = [] \<Longrightarrow>
     app_keywords (parse_lines ls a) =
       app_keywords a @ concat (map (\<lambda>h. push_words 1 (lowercase h)) (spec_hint_values ls))"
proof (induction ls arbitrary: a)
  case Nil
  then show ?case by simp
next
  case (Cons l ls)
  show ?case
  proof (cases "prefix ''Exec='' l \<and> drop 5 l \<noteq> []")
    case True
    then have "cmd (parse_line l a) \<noteq> []"
      using Cons.prems by (simp add: parse_line_cmd_unset)
    then have "app_keywords (parse_lines ls (parse_line l a)) = app_keywords (parse_line l a)"
      by (rule parse_lines_cmd_set)
    with True Cons.prems show ?thesis by (simp add: parse_line_cmd_unset)
  next
    case False
    have c: "cmd (parse_line l a) = []"
      by (simp only: parse_line_cmd_unset(1)[OF Cons.prems] False if_False)
    have k: "app_keywords (parse_line l a) =
               (if prefix ''Keywords='' l
                then app_keywords a @ push_words 1 (lowercase (drop 9 l))
                else app_keywords a)"
      by (simp only: parse_line_cmd_unset(2)[OF Cons.prems] False if_False)
    have h: "spec_hint_values (l # ls) =
               (if prefix ''Keywords='' l then drop 9 l # spec_hint_values ls else spec_hint_values ls)"
      by (simp only: spec_hint_values.simps False if_False)
    show ?thesis
      unfolding parse_lines.simps Cons.IH[OF c] k h by simp
  qed
qed

lemma index_keywords_fields:
  "app_name (index_keywords a) = app_name a"
  "genericName (index_keywords a) = genericName a"
  "comment (index_keywords a) = comment a"
  by (simp_all add: index_keywords_def)

subsection \<open>The application with 315 keyword hints\<close>

lemma getline_all_xs:
  "getline_all CHR '' '' (concat (replicate n ''x '') @ ''x'') = replicate (Suc n) ''x''"
proof (induction n)
  case 0
  show ?case using getline_all_last[of "CHR '' ''" "''x''"] by simp
next
  case (Suc n)
  have "getline_all CHR '' '' (''x'' @ CHR '' '' # (concat (replicate n ''x '') @ ''x''))
          = ''x'' # getline_all CHR '' '' (concat (replicate n ''x '') @ ''x'')"
    by (rule getline_all_append) simp
  with Suc show ?case by simp
qed

lemma lowercase_xs:
  "lowercase (concat (replicate n ''x '') @ ''x'') = concat (replicate n ''x '') @ ''x''"
  by (induction n) (simp_all add: lowercase_def tolower_def)

lemma long_file_lines:
  "getline_all (CHR 0x0A) long_file =
     [''[Desktop Entry]'', ''Keywords='' @ concat (replicate 314 ''x '') @ ''x'', ''Name=Abc'']"
proof -
  let ?l1 = "''[Desktop Entry]''"
  let ?l2 = "''Keywords='' @ concat (replicate 314 ''x '') @ ''x''"
  let ?l3 = "''Name=Abc''"
  have f: "long_file = ?l1 @ CHR 0x0A # ?l2 @ CHR 0x0A # ?l3 @ CHR 0x0A # []"
    by (simp add: long_file_def)
  have n1: "CHR 0x0A \<notin> set ?l1" and n2: "CHR 0x0A \<notin> set ?l2" and n3: "CHR 0x0A \<notin> set ?l3"
    by simp_all
  show ?thesis
    unfolding f
    by (simp only: getline_all_append[OF n1] getline_all_append[OF n2]
          getline_all_append[OF n3] getline_all_Nil)
qed

lemma long_app_eq:
  "long_app =
     \<lparr>app_id = ''/usr/share/applications/long.desktop'', app_name = ''Abc'',
      genericName = [], comment = [], cmd = [],
      app_keywords = replicate 315 \<lparr>word = ''x'', weight = 1\<rparr>
                       @ [\<lparr>word = ''abc'', weight = 1000\<rparr>, \<lparr>word = [], weight = 1\<rparr>],
      app_count = 0\<rparr>"
proof -
  let ?a0 = "\<lparr>app_id = ''/usr/share/applications/long.desktop'', app_name = [],
      genericName = [], comment = [], cmd = [], app_keywords = [], app_count = 0\<rparr>"
  have l1: "parse_line ''[Desktop Entry]'' ?a0 = ?a0"
    by (simp add: parse_line_def read_name_def read_genericName_def read_comment_def
        read_cmd_def read_keywords_def)
  let ?a2 = "?a0\<lparr>app_keywords := replicate 315 \<lparr>word = ''x'', weight = 1\<rparr>\<rparr>"
  have pw: "push_words 1 (lowercase (concat (replicate 314 ''x '') @ ''x''))
              = replicate 315 \<lparr>word = ''x'', weight = 1\<rparr>"
    by (simp add: push_words_def lowercase_xs getline_all_xs)
  have l2: "parse_line (''Keywords='' @ concat (replicate 314 ''x '') @ ''x'') ?a0 = ?a2"
    by (simp add: parse_line_def read_name_def read_genericName_def read_comment_def
        read_cmd_def read_keywords_def pw)
  let ?a3 = "?a2\<lparr>app_name := ''Abc''\<rparr>"
  have l3: "parse_line ''Name=Abc'' ?a2 = ?a3"
    by (simp add: parse_line_def read_name_def read_genericName_def read_comment_def
        read_cmd_def read_keywords_def)
  have t1: "push_words 1000 (lowercase ''Abc'') = [\<lparr>word = ''abc'', weight = 1000\<rparr>]"
    by code_simp
  have t2: "push_words 1 (lowercase '' '') = [\<lparr>word = [], weight = 1\<rparr>]"
    by code_simp
  have "parse_lines (getline_all (CHR 0x0A) long_file) ?a0 = ?a3"
    by (simp only: long_file_lines parse_lines.simps l1 l2 l3)
  then show ?thesis
    by (simp add: long_app_def read_application_def index_keywords_def t1 t2)
qed

lemma long_app_first:
  "315 < length (app_keywords long_app)"
  "sublist ''a'' (word (app_keywords long_app ! 315))"
  "\<forall>j<315. \<not> sublist ''a'' (word (app_keywords long_app ! j))"
  by (simp_all add: long_app_eq nth_append sublist_code)

subsection \<open>Reading and writing the configuration file\<close>

lemma find_last_of_None_iff: "find_last_of s cs = None \<longleftrightarrow> set s \<inter> set cs = {}"
  by (induction s) (auto split: option.splits)

lemma find_last_of_append:
  "find_last_of (xs @ ys) cs =
     (case find_last_of ys cs of
        Some i \<Rightarrow> Some (length xs + i)
      | None \<Rightarrow> find_last_of xs cs)"
  by (induction xs) (auto split: option.splits)

lemma find_last_of_key_value:
  assumes "c \<notin> set v"
  shows "find_last_of (k @ c # v) [c] = Some (length k)"
proof -
  have "find_last_of v [c] = None"
    using assms by (simp add: find_last_of_None_iff)
  then have "find_last_of (c # v) [c] = Some 0" by simp
  then show ?thesis by (simp add: find_last_of_append)
qed

lemma find_str_char_None_iff: "find_str s [c] = None \<longleftrightarrow> c \<notin> set s"
  by (induction s) auto

lemma readLine_no_equals:
  assumes "CHR ''='' \<notin> set line"
  shows "readLine line c = Inr c"
proof -
  have "find_last_of line ''='' = None"
    using assms by (simp add: find_last_of_None_iff)
  then show ?thesis by (simp add: readLine_def)
qed

lemma readLine_key_value:
  assumes "CHR ''='' \<notin> set v"
  shows "readLine (k @ ''='' @ v) c =
           (if CHR ''/'' \<notin> set k
            then Inr (readStyle STYLE_ATTRIBUTES k v (fst c), snd c)
            else (case readCount (snd c) k v of
                    Inl e \<Rightarrow> Inl e
                  | Inr apps \<Rightarrow> Inr (fst c, apps)))"
  using find_last_of_key_value[OF assms, of k]
  by (simp add: readLine_def find_str_char_None_iff)

lemma readConfig_line:
  assumes "CHR 0x0A \<notin> set line"
  shows "readConfig (Some (line @ CHR 0x0A # content)) c =
           (case readLine line c of Inl e \<Rightarrow> Inl e | Inr c' \<Rightarrow> readConfig (Some content) c')"
  by (simp add: readConfig_def getline_all_append[OF assms] split: sum.splits)

lemma readConfig_end: "readConfig (Some []) c = Inr c"
  by (simp add: readConfig_def getline_all_Nil)

lemma readCount_first:
  assumes "j < length apps" and "app_id (apps ! j) = key"
    and "\<forall>i<j. app_id (apps ! i) \<noteq> key"
  shows "readCount apps key val =
           (case stoi val of
              Inl e \<Rightarrow> Inl e
            | Inr n \<Rightarrow> Inr (apps[j := (apps ! j)\<lparr>app_count := n\<rparr>]))"
  using assms
proof (induction apps arbitrary: j)
  case Nil
  then show ?case by simp
next
  case (Cons a as)
  show ?case
  proof (cases j)
    case 0
    with Cons.prems show ?thesis by (simp split: sum.splits)
  next
    case (Suc j')
    with Cons.prems have ne: "app_id a \<noteq> key" by auto
    have "readCount as key val =
           (case stoi val of
              Inl e \<Rightarrow> Inl e
            | Inr n \<Rightarrow> Inr (as[j' := (as ! j')\<lparr>app_count := n\<rparr>]))"
      using Cons.prems Suc by (intro Cons.IH) auto
    with ne Suc show ?thesis by (simp split: sum.splits)
  qed
qed

lemma readCount_unknown:
  "(\<forall>a \<in> set apps. app_id a \<noteq> key) \<Longrightarrow> readCount apps key val = Inr apps"
  by (induction apps) auto

lemmas eval_config =
  readConfig_def getline_all_Cons getline_all_Nil readLine_def Let_def
  stoi_def isspace_def isdigit_def calc_app_def edit_app_def

lemma attribute_name_chars:
  "CHR ''/'' \<notin> set (attribute_name t)" "CHR ''='' \<notin> set (attribute_name t)"
  "CHR 0x0A \<notin> set (attribute_name t)"
  by (cases t; simp add: attribute_name_def STYLE_ATTRIBUTES_def)+

lemma writeStyle_one_override:
  assumes "v \<noteq> DEFAULT_STYLE t"
  shows "writeStyle STYLE_ATTRIBUTES (DEFAULT_STYLE(t := v)) = attribute_name t @ ''='' @ v @ [CHR 0x0A]"
  using assms by (cases t) (simp_all add: attribute_name_def STYLE_ATTRIBUTES_def)

lemma readStyle_attribute_name:
  "readStyle STYLE_ATTRIBUTES (attribute_name t) v style = style(t := v)"
  by (cases t) (simp_all add: attribute_name_def STYLE_ATTRIBUTES_def)

lemma to_string_5: "to_string 5 = ''5''"
  by code_simp

lemma stoi_5: "stoi ''5'' = Inr 5"
  by (simp add: stoi_def isspace_def isdigit_def Let_def)

lemma round_trip_one_count:
  assumes "v \<noteq> DEFAULT_STYLE t" and "CHR ''='' \<notin> set v" and "CHR 0x0A \<notin> set v"
    and "CHR ''/'' \<in> set ident" and "CHR 0x0A \<notin> set ident"
    and w: "writeCounts saved = ident @ ''=5'' @ [CHR 0x0A]"
    and r: "readCount fresh ident ''5'' = Inr saved"
  shows "writeConfig (DEFAULT_STYLE(t := v), saved) =
           ''[Style]'' @ [CHR 0x0A] @ attribute_name t @ ''='' @ v @ [CHR 0x0A]
             @ [CHR 0x0A] @ ''[Application Launch Counts]'' @ [CHR 0x0A]
             @ ident @ ''=5'' @ [CHR 0x0A]
       \<and> readConfig (Some (writeConfig (DEFAULT_STYLE(t := v), saved))) (DEFAULT_STYLE, fresh)
         = Inr (DEFAULT_STYLE(t := v), saved)"
proof -
  let ?style = "DEFAULT_STYLE(t := v)"
  let ?l2 = "attribute_name t @ ''='' @ v"
  let ?l5 = "ident @ ''='' @ ''5''"
  have written: "writeConfig (?style, saved) =
      ''[Style]'' @ CHR 0x0A # ?l2 @ CHR 0x0A # [] @ CHR 0x0A
        # ''[Application Launch Counts]'' @ CHR 0x0A # ?l5 @ CHR 0x0A # []"
    by (simp add: writeConfig_def writeStyle_one_override[OF assms(1)] w)
  have n1: "CHR 0x0A \<notin> set ''[Style]''" by simp
  have n2: "CHR 0x0A \<notin> set ?l2" using assms(3) attribute_name_chars(3)[of t] by simp
  have n3: "CHR 0x0A \<notin> set []" by simp
  have n4: "CHR 0x0A \<notin> set ''[Application Launch Counts]''" by simp
  have n5: "CHR 0x0A \<notin> set ?l5" using assms(5) by simp
  have r1: "readLine ''[Style]'' c = Inr c" for c
    by (rule readLine_no_equals) simp
  have r2: "readLine ?l2 (DEFAULT_STYLE, fresh) = Inr (?style, fresh)"
    using readLine_key_value[OF assms(2), of "attribute_name t" "(DEFAULT_STYLE, fresh)"]
    by (simp add: attribute_name_chars readStyle_attribute_name)
  have r3: "readLine [] c = Inr c" for c
    by (rule readLine_no_equals) simp
  have r4: "readLine ''[Application Launch Counts]'' c = Inr c" for c
    by (rule readLine_no_equals) simp
  have r5: "readLine ?l5 (?style, fresh) = Inr (?style, saved)"
    using readLine_key_value[of "''5''" ident "(?style, fresh)"] assms(4) r
    by simp
  have "readConfig (Some (writeConfig (?style, saved))) (DEFAULT_STYLE, fresh)
          = Inr (?style, saved)"
    unfolding written
    by (simp only: readConfig_line[OF n1] readConfig_line[OF n2] readConfig_line[OF n3]
          readConfig_line[OF n4] readConfig_line[OF n5] readConfig_end r1 r2 r3 r4 r5
          sum.case)
  moreover have "writeConfig (?style, saved) =
           ''[Style]'' @ [CHR 0x0A] @ attribute_name t @ ''='' @ v @ [CHR 0x0A]
             @ [CHR 0x0A] @ ''[Application Launch Counts]'' @ [CHR 0x0A]
             @ ident @ ''=5'' @ [CHR 0x0A]"
    unfolding written by simp
  ultimately show ?thesis by blast
qed

lemma getline_all_no_delimiter: "l \<in> set (getline_all d s) \<Longrightarrow> d \<notin> set l"
proof (induction s arbitrary: l)
  case Nil
  then show ?case by (simp add: getline_all_Nil)
next
  case (Cons c s)
  then show ?case
    by (cases "getline_all d s") (auto simp: getline_all_Cons split: if_splits)
qed

lemma find_last_of_Some:
  "find_last_of s cs = Some i \<Longrightarrow> i < length s \<and> set (drop (Suc i) s) \<inter> set cs = {}"
proof (induction s arbitrary: i)
  case Nil
  then show ?case by simp
next
  case (Cons c s)
  then show ?case
    by (auto simp: find_last_of_None_iff split: option.splits if_splits)
qed

lemma readStyle_value:
  "readStyle attrs key val style t = style t \<or> readStyle attrs key val style t = val"
  by (induction attrs key val style rule: readStyle.induct) auto

lemma DEFAULT_STYLE_plain: "plain_value (DEFAULT_STYLE t)"
  by (cases t) (simp_all add: plain_value_def)

lemma readLine_plain:
  assumes "readLine line (style, apps) = Inr (style', apps')"
    and "CHR 0x0A \<notin> set line" and "\<forall>t. plain_value (style t)"
  shows "plain_value (style' t)"
proof (cases "find_last_of line ''=''")
  case None
  with assms show ?thesis by (simp add: readLine_def)
next
  case (Some i)
  let ?val = "drop (i + 1) line"
  have "set ?val \<inter> set ''='' = {}" using find_last_of_Some[OF Some] by simp
  moreover have "CHR 0x0A \<notin> set ?val" using assms(2) by (meson in_set_dropD)
  ultimately have pv: "plain_value ?val" by (simp add: plain_value_def)
  show ?thesis
  proof (cases "find_str (take i line) ''/'' = None")
    case True
    with assms(1) Some have "style' = readStyle STYLE_ATTRIBUTES (take i line) ?val style"
      by (simp add: readLine_def Let_def)
    then show ?thesis
      using readStyle_value[of STYLE_ATTRIBUTES "take i line" ?val style t] pv assms(3)
      by auto
  next
    case False
    with assms(1) Some have "style' = style"
      by (auto simp: readLine_def Let_def split: sum.splits)
    with assms(3) show ?thesis by simp
  qed
qed

lemma readLines_plain:
  assumes "readLines ls (style, apps) = Inr (style', apps')"
    and "\<forall>l \<in> set ls. CHR 0x0A \<notin> set l" and "\<forall>t. plain_value (style t)"
  shows "plain_value (style' t)"
  using assms
proof (induction ls arbitrary: style apps)
  case Nil
  then show ?case by simp
next
  case (Cons l ls)
  from Cons.prems(1) obtain s1 a1 where 1: "readLine l (style, apps) = Inr (s1, a1)"
    and 2: "readLines ls (s1, a1) = Inr (style', apps')"
    by (auto split: sum.splits)
  have "\<forall>t. plain_value (s1 t)"
    using readLine_plain[OF 1] Cons.prems(2,3) by simp
  with Cons.IH[OF 2] Cons.prems(2) show ?case by simp
qed

lemma readConfig_plain:
  assumes "readConfig f (DEFAULT_STYLE, apps) = Inr (style', apps')"
  shows "plain_value (style' t)"
proof (cases f)
  case None
  with assms show ?thesis by (simp add: readConfig_def DEFAULT_STYLE_plain)
next
  case (Some content)
  with assms have "readLines (getline_all (CHR 0x0A) content) (DEFAULT_STYLE, apps) = Inr (style', apps')"
    by (simp add: readConfig_def)
  then show ?thesis
    by (rule readLines_plain) (auto simp: getline_all_no_delimiter DEFAULT_STYLE_plain)
qed

subsection \<open>Key presses\<close>

lemma to_size_t_nat: "0 \<le> x \<Longrightarrow> x < 2 ^ 64 \<Longrightarrow> to_size_t x = nat x"
  by (simp add: to_size_t_def)

lemma c_str_single: "length text = 1 \<Longrightarrow> text \<noteq> [CHR 0x00] \<Longrightarrow> c_str text = text"
  by (cases "text") (auto simp: c_str_def)

lemma onKeyPress_cursor_ok:
  assumes ok: "cursor_ok g" and len: "length (query g) < 2 ^ 31"
    and key: "cursor_key k" and nonul: "text \<noteq> [CHR 0x00]"
  shows "\<exists>g'. onKeyPress k text g = Returns g' \<and> cursor_ok g'
              \<and> length (query g') \<le> length (query g) + 1"
proof -
  have c0: "0 \<le> cursor g" and c1: "cursor g \<le> int (length (query g))"
    using ok by (simp_all add: cursor_ok_def)
  have small: "cursor g < 2 ^ 64" using c1 len by simp
  have sz: "to_size_t (cursor g) = nat (cursor g)"
    by (rule to_size_t_nat[OF c0 small])
  have sz1: "to_size_t (cursor g - 1) = nat (cursor g - 1)" if "0 < cursor g"
    using that small by (intro to_size_t_nat) simp_all
  from key consider "k = XK_Left" | "k = XK_Right" | "k = XK_Home" | "k = XK_End"
    | "k = XK_BackSpace" | "k = XK_Delete" | "k = XK_other"
    by (auto simp: cursor_key_def)
  then show ?thesis
  proof cases
    case 1
    then show ?thesis using c0 c1
      by (simp add: onKeyPress_def after_switch_def cursor_ok_def)
  next
    case 2
    then show ?thesis using c0 c1
      by (auto simp: onKeyPress_def after_switch_def cursor_ok_def sz)
  next
    case 3
    then show ?thesis by (simp add: onKeyPress_def after_switch_def cursor_ok_def)
  next
    case 4
    then show ?thesis by (simp add: onKeyPress_def after_switch_def cursor_ok_def)
  next
    case 5
    show ?thesis
    proof (cases "0 < cursor g")
      case True
      then show ?thesis using 5 c1
        by (simp add: onKeyPress_def after_switch_def cursor_ok_def erase_def sz1) linarith
    next
      case False
      then show ?thesis using 5 c0 c1
        by (simp add: onKeyPress_def after_switch_def cursor_ok_def)
    qed
  next
    case 6
    then show ?thesis using c0 c1
      by (auto simp: onKeyPress_def after_switch_def cursor_ok_def erase_def sz)
  next
    case 7
    show ?thesis
    proof (cases "length text = 1")
      case True
      then have "length (c_str text) = 1" using c_str_single[OF True nonul] by simp
      then show ?thesis using 7 True c0 c1
        by (simp add: onKeyPress_def after_switch_def cursor_ok_def substr_def sz)
    next
      case False
      then show ?thesis using 7 c0 c1
        by (simp add: onKeyPress_def after_switch_def cursor_ok_def)
    qed
  qed
qed

lemma key_event_cursor_ok:
  assumes "cursor_ok g" and "length (query g) < 2 ^ 31"
    and "cursor_key (fst ev)" and "snd ev \<noteq> [CHR 0x00]"
  shows "\<exists>g'. key_event srt apps ev g = Returns g' \<and> cursor_ok g'
              \<and> length (query g') \<le> length (query g) + 1"
proof -
  from onKeyPress_cursor_ok[OF assms] obtain g1
    where "onKeyPress (fst ev) (snd ev) g = Returns g1" and "cursor_ok g1"
      and "length (query g1) \<le> length (query g) + 1"
    by blast
  then show ?thesis
    by (simp add: key_event_def Let_def cursor_ok_def)
qed

lemma key_events_cursor_ok:
  assumes "cursor_ok g" and "length (query g) + length evs < 2 ^ 31"
    and "\<forall>ev \<in> set evs. cursor_key (fst ev) \<and> snd ev \<noteq> [CHR 0x00]"
  shows "\<exists>g'. key_events srt apps evs g = Returns g' \<and> cursor_ok g'"
  using assms
proof (induction evs arbitrary: g)
  case Nil
  then show ?case by simp
next
  case (Cons ev evs)
  have "length (query g) < 2 ^ 31" using Cons.prems(2) by simp
  with Cons.prems obtain g1 where g1: "key_event srt apps ev g = Returns g1"
    and ok1: "cursor_ok g1" and l1: "length (query g1) \<le> length (query g) + 1"
    using key_event_cursor_ok[of g ev srt apps] by auto
  have "length (query g1) + length evs < 2 ^ 31" using l1 Cons.prems(2) by simp
  with Cons.IH[OF ok1] Cons.prems(3) obtain g' where
    "key_events srt apps evs g1 = Returns g'" and "cursor_ok g'" by auto
  with g1 show ?case by simp
qed

section \<open>The claims\<close>

subsection \<open>C1: the first matching keyword decides the score\<close>

text \<open>
  C1 as stated fails where the formula leaves the range of \<^verbatim>\<open>int\<close>: the score is an
  \<^verbatim>\<open>int\<close>. The count 2000000000 is one that \<^verbatim>\<open>readConfig\<close> accepts; with it the query
  \<open>fire\<close>, a prefix of the keyword at index 0 with weight 1000, has the formula's value
  3000000000, while the score the program computes is negative and the application is no
  result.
\<close>

theorem first_match_formula_counterexample:
  "stoi ''2000000000'' = Inr 2000000000
     \<and> find_str (word (app_keywords big_count_app ! 0)) ''fire'' = Some 0
     \<and> (100 - 0) * weight (app_keywords big_count_app ! 0) * 10000 + app_count big_count_app
           = 3000000000
     \<and> app_score ''fire'' big_count_app = - 1294967296
     \<and> search sort_desc ''fire'' [big_count_app] = []"
  by code_simp

text \<open>
  C1, amended. For a non-empty query \<open>q\<close> and the application at index \<open>k\<close>, let \<open>i\<close> be
  the index of its first keyword that holds \<open>q\<close> as a contiguous substring. Then \<^verbatim>\<open>find\<close>
  returns the least position \<open>m\<close> at which \<open>q\<close> occurs in that keyword, and the score of
  the application is \<open>(100 - i) * w * (if m = 0 then 10000 else 100) + count\<close>, with \<open>w\<close>
  the weight of that keyword, computed in 32-bit \<^verbatim>\<open>int\<close> arithmetic: it is the value of
  the formula whenever that value lies from \<open>- 2^31\<close> to \<open>2^31 - 1\<close>, as it does for the
  weights 1 and 1000, every index up to 313 and every count from 0 to 1147483647, and
  that value wrapped around modulo \<open>2^32\<close> otherwise. Every result of \<^verbatim>\<open>search\<close> for this
  application carries this score, and the score stays the same whatever keywords follow
  the one at \<open>i\<close>: they are never examined.
\<close>

theorem search_scores_first_matching_keyword:
  assumes "std_sort srt" and "q \<noteq> []" and "k < length apps"
    and "i < length (app_keywords (apps ! k))"
    and "sublist q (word (app_keywords (apps ! k) ! i))"
    and "\<forall>j<i. \<not> sublist q (word (app_keywords (apps ! k) ! j))"
  shows "\<exists>m. find_str (word (app_keywords (apps ! k) ! i)) q = Some m
           \<and> prefix q (drop m (word (app_keywords (apps ! k) ! i)))
           \<and> (\<forall>j<m. \<not> prefix q (drop j (word (app_keywords (apps ! k) ! i))))
           \<and> app_score q (apps ! k) =
               int32 ((100 - int i) * weight (app_keywords (apps ! k) ! i)
                        * (if m = 0 then 10000 else 100) + app_count (apps ! k))
           \<and> (- (2 ^ 31) \<le> (100 - int i) * weight (app_keywords (apps ! k) ! i)
                               * (if m = 0 then 10000 else 100) + app_count (apps ! k)
                \<and> (100 - int i) * weight (app_keywords (apps ! k) ! i)
                      * (if m = 0 then 10000 else 100) + app_count (apps ! k) < 2 ^ 31
               \<longrightarrow> app_score q (apps ! k) =
                     (100 - int i) * weight (app_keywords (apps ! k) ! i)
                       * (if m = 0 then 10000 else 100) + app_count (apps ! k))
           \<and> ((weight (app_keywords (apps ! k) ! i) = 1
                   \<or> weight (app_keywords (apps ! k) ! i) = 1000)
                \<and> i \<le> 313 \<and> 0 \<le> app_count (apps ! k) \<and> app_count (apps ! k) \<le> 1147483647
               \<longrightarrow> app_score q (apps ! k) =
                     (100 - int i) * weight (app_keywords (apps ! k) ! i)
                       * (if m = 0 then 10000 else 100) + app_count (apps ! k))
           \<and> (\<forall>r \<in> set (search srt q apps). app r = k \<longrightarrow> score r = app_score q (apps ! k))
           \<and> (\<forall>later. app_score q
                  ((apps ! k)\<lparr>app_keywords := take (Suc i) (app_keywords (apps ! k)) @ later\<rparr>)
                = app_score q (apps ! k))"
proof -
  let ?a = "apps ! k"
  let ?kw = "app_keywords ?a ! i"
  from assms(5) obtain m where m: "find_str (word ?kw) q = Some m"
    using find_str_None_iff[of "word ?kw" q] by auto
  have m0: "m = 0 \<longleftrightarrow> prefix q (word ?kw)"
    using m find_str_Some_0_iff[of "word ?kw" q] by auto
  define F where "F = (100 - int i) * weight ?kw * (if m = 0 then 10000 else 100) + app_count ?a"
  have least: "prefix q (drop m (word ?kw))" "\<forall>j<m. \<not> prefix q (drop j (word ?kw))"
    using m by (simp_all add: find_str_Some_iff)
  have sc: "app_score q ?a = int32 F"
    using app_score_first[OF assms(4-6)] m0 by (simp add: F_def)
  have exact: "app_score q ?a = F" if "- (2 ^ 31) \<le> F \<and> F < 2 ^ 31"
    using that sc by (simp add: int32_id)
  have usual: "app_score q ?a = F"
    if u: "(weight ?kw = 1 \<or> weight ?kw = 1000) \<and> i \<le> 313 \<and> 0 \<le> app_count ?a
            \<and> app_count ?a \<le> 1147483647"
  proof -
    have f: "(if m = 0 then 10000 else 100) = (100::int) \<or> (if m = 0 then 10000 else 100) = (10000::int)"
      by simp
    have "- (2 ^ 31) \<le> F \<and> F < 2 ^ 31"
      unfolding F_def using u by (intro score_fits_int32 f) simp_all
    then show ?thesis by (rule exact)
  qed
  have res: "\<forall>r \<in> set (search srt q apps). app r = k \<longrightarrow> score r = app_score q ?a"
    using search_member[OF assms(1)] by blast
  have indep: "app_score q (?a\<lparr>app_keywords := take (Suc i) (app_keywords ?a) @ later\<rparr>)
                = app_score q ?a" for later
  proof -
    let ?ks = "take (Suc i) (app_keywords ?a)"
    have a: "i < length ?ks" using assms(4) by simp
    have b: "sublist q (word (?ks ! i))" using assms(5) by simp
    have c: "\<forall>j<i. \<not> sublist q (word (?ks ! j))" using assms(6) by simp
    have "scan_keywords q (app_count ?a) 0 (?ks @ later) =
            int32 ((100 - (0 + int i)) * weight (?ks ! i)
                     * (if prefix q (word (?ks ! i)) then 10000 else 100) + app_count ?a)"
      by (rule scan_keywords_first[OF a b c])
    then show ?thesis
      using app_score_first[OF assms(4-6)] by (simp add: app_score_def)
  qed
  from m least sc exact usual res indep show ?thesis unfolding F_def by blast
qed

theorem search_scores_first_matching_keyword_witness:
  "std_sort sort_desc \<and> sublist ''web'' (word (app_keywords firefox_app ! 1))
     \<and> \<not> sublist ''web'' (word (app_keywords firefox_app ! 0))
     \<and> find_str ''web'' ''web'' = Some 0
     \<and> weight (app_keywords firefox_app ! 1) = 1
     \<and> app_count firefox_app = 5
     \<and> app_score ''web'' firefox_app = (100 - 1) * 1 * 10000 + 5
     \<and> app_score ''web''
          (firefox_app\<lparr>app_keywords := take 2 (app_keywords firefox_app)
                                          @ [\<lparr>word = ''web'', weight = 1000\<rparr>]\<rparr>) = 990005"
proof -
  have k: "0 < length [firefox_app]" by simp
  have q: "''web'' \<noteq> []" by simp
  have i: "1 < length (app_keywords ([firefox_app] ! 0))" by (simp add: firefox_app_def)
  have s: "sublist ''web'' (word (app_keywords ([firefox_app] ! 0) ! 1))"
    by (simp add: firefox_app_def)
  have n: "\<forall>j<1. \<not> sublist ''web'' (word (app_keywords ([firefox_app] ! 0) ! j))"
    by (simp add: firefox_app_def sublist_code)
  have w: "weight (app_keywords ([firefox_app] ! 0) ! 1) = 1"
    and c: "app_count ([firefox_app] ! 0) = 5"
    by (simp_all add: firefox_app_def)
  from search_scores_first_matching_keyword[OF std_sort_sort_desc q k i s n]
  obtain m where m: "find_str (word (app_keywords ([firefox_app] ! 0) ! 1)) ''web'' = Some m"
    and sc: "(weight (app_keywords ([firefox_app] ! 0) ! 1) = 1
                \<or> weight (app_keywords ([firefox_app] ! 0) ! 1) = 1000)
             \<and> 1 \<le> (313::nat) \<and> 0 \<le> app_count ([firefox_app] ! 0)
             \<and> app_count ([firefox_app] ! 0) \<le> 1147483647
             \<longrightarrow> app_score ''web'' ([firefox_app] ! 0) =
               (100 - int 1) * weight (app_keywords ([firefox_app] ! 0) ! 1)
                 * (if m = 0 then 10000 else 100) + app_count ([firefox_app] ! 0)"
    and indep: "\<forall>later. app_score ''web''
                  (([firefox_app] ! 0)\<lparr>app_keywords :=
                      take (Suc 1) (app_keywords ([firefox_app] ! 0)) @ later\<rparr>)
                = app_score ''web'' ([firefox_app] ! 0)"
    by blast
  from m have m0: "m = 0" by (simp add: firefox_app_def)
  have v: "app_score ''web'' firefox_app = (100 - 1) * 1 * 10000 + 5"
    using sc w c m0 by simp
  moreover have "app_score ''web''
          (firefox_app\<lparr>app_keywords := take 2 (app_keywords firefox_app)
                                          @ [\<lparr>word = ''web'', weight = 1000\<rparr>]\<rparr>) = 990005"
    using indep[rule_format, of "[\<lparr>word = ''web'', weight = 1000\<rparr>]"] v
    by (simp add: firefox_app_def)
  moreover have "find_str ''web'' ''web'' = Some 0" by simp
  ultimately show ?thesis
    using std_sort_sort_desc s n w c by (simp add: firefox_app_def)
qed

subsection \<open>C2: the cut to ten results\<close>

text \<open>
  C2 as stated fails: a query can match more than ten applications and give fewer than
  ten results, since a match does not imply a positive score. Each of the eleven
  applications of \<open>deep_apps\<close> has a keyword that holds the query \<open>a\<close>, at index 100,
  where the factor \<open>100 - i\<close> is 0; none is a result.
\<close>

theorem top_ten_counterexample:
  "length (filter (app_matches ''a'') deep_apps) = 11
     \<and> distinct (map app_id deep_apps)
     \<and> search sort_desc ''a'' deep_apps = []"
  by code_simp

text \<open>
  C2, amended. When more than ten applications have a strictly positive score for a
  non-empty query, \<^verbatim>\<open>search\<close> returns exactly ten results, in descending order of score;
  they stand for ten different applications, each with its own positive score, and every
  application with a positive score that is not among them scores no higher than any of
  the ten. This holds for every sorting function that meets the contract of
  \<^verbatim>\<open>std::sort\<close>, so for every order among equal scores.
\<close>

theorem top_ten_of_positive_scores:
  assumes "std_sort srt" and "q \<noteq> []"
    and "10 < length (filter (\<lambda>a. 0 < app_score q a) apps)"
  shows "length (search srt q apps) = 10
       \<and> sorted_wrt (\<lambda>a b. score b \<le> score a) (search srt q apps)
       \<and> distinct (map app (search srt q apps))
       \<and> (\<forall>r \<in> set (search srt q apps).
             app r < length apps \<and> score r = app_score q (apps ! app r) \<and> 0 < score r)
       \<and> (\<forall>k<length apps. 0 < app_score q (apps ! k) \<longrightarrow>
             (\<exists>r \<in> set (search srt q apps). app r = k)
             \<or> (\<forall>r \<in> set (search srt q apps). app_score q (apps ! k) \<le> score r))"
proof -
  let ?cs = "collect q 0 apps"
  let ?ss = "srt ?cs"
  have top: "search srt q apps = take 10 ?ss" by (rule search_top[OF assms(1,2)])
  have len: "10 < length ?ss"
    using assms(3) by (simp add: std_sort_length[OF assms(1)] length_collect)
  have sorted: "sorted_wrt (\<lambda>a b. score b \<le> score a) ?ss"
    using std_sort_sorted[OF assms(1), of ?cs] by (simp add: not_less)
  have 1: "length (search srt q apps) = 10" using len by (simp add: top)
  have 2: "sorted_wrt (\<lambda>a b. score b \<le> score a) (search srt q apps)"
    unfolding top using sorted by (rule sorted_wrt_take)
  have 3: "distinct (map app (search srt q apps))"
    unfolding top take_map[symmetric]
    by (rule distinct_take) (rule std_sort_distinct[OF assms(1) distinct_collect])
  have 4: "\<forall>r \<in> set (search srt q apps).
             app r < length apps \<and> score r = app_score q (apps ! app r) \<and> 0 < score r"
    using search_member[OF assms(1)] by blast
  have 5: "(\<exists>r \<in> set (search srt q apps). app r = k)
             \<or> (\<forall>r \<in> set (search srt q apps). app_score q (apps ! k) \<le> score r)"
    if k: "k < length apps" and pos: "0 < app_score q (apps ! k)" for k
  proof -
    let ?x = "\<lparr>app = k, score = app_score q (apps ! k)\<rparr>"
    have "?x \<in> set ?cs" using k pos by (auto simp: collect_set)
    then have "?x \<in> set ?ss" by (simp add: std_sort_set[OF assms(1)])
    then have "?x \<in> set (take 10 ?ss) \<or> ?x \<in> set (drop 10 ?ss)"
      by (metis append_take_drop_id set_append Un_iff)
    then show ?thesis
    proof
      assume "?x \<in> set (take 10 ?ss)"
      then have "\<exists>r \<in> set (search srt q apps). app r = k"
        unfolding top by force
      then show ?thesis ..
    next
      assume x: "?x \<in> set (drop 10 ?ss)"
      have "sorted_wrt (\<lambda>a b. score b \<le> score a) (take 10 ?ss @ drop 10 ?ss)"
        using sorted by simp
      then have "\<forall>r \<in> set (take 10 ?ss). \<forall>y \<in> set (drop 10 ?ss). score y \<le> score r"
        unfolding sorted_wrt_append by blast
      with x have "\<forall>r \<in> set (take 10 ?ss). app_score q (apps ! k) \<le> score r"
        by force
      then show ?thesis unfolding top ..
    qed
  qed
  from 1 2 3 4 5 show ?thesis by blast
qed

theorem top_ten_of_positive_scores_witness:
  "std_sort sort_desc
     \<and> length (filter (\<lambda>a. 0 < app_score ''fire'' a) eleven_apps) = 11
     \<and> length (search sort_desc ''fire'' eleven_apps) = 10
     \<and> map app (search sort_desc ''fire'' eleven_apps) = [10, 9, 8, 7, 6, 5, 4, 3, 2, 1]"
proof -
  have q: "''fire'' \<noteq> []" by simp
  have n: "length (filter (\<lambda>a. 0 < app_score ''fire'' a) eleven_apps) = 11"
    by code_simp
  then have h: "10 < length (filter (\<lambda>a. 0 < app_score ''fire'' a) eleven_apps)"
    by simp
  have ev: "map app (search sort_desc ''fire'' eleven_apps) = [10, 9, 8, 7, 6, 5, 4, 3, 2, 1]"
    by code_simp
  from top_ten_of_positive_scores[OF std_sort_sort_desc q h]
  have "length (search sort_desc ''fire'' eleven_apps) = 10" by blast
  with n ev std_sort_sort_desc show ?thesis by simp
qed

subsection \<open>C3: a match at the start of a keyword against a match further in\<close>

text \<open>
  C3 as stated fails: the counts are added to the scores, so a large enough count
  outweighs the factor of 100 between the two kinds of match. With the same weight and
  the same index, the application that matches at position 4 and has count 1000000
  scores higher than the one that matches at position 0 and has count 0. And a count can
  take the score of the application that matches at position 0 out of the range of
  \<^verbatim>\<open>int\<close>: with weight 1000 and count 2000000000 its score is negative, below that of the
  application that matches at position 3 and has count 0.
\<close>

theorem prefix_match_scores_higher_counterexample:
  "find_str (word (app_keywords firewall_app ! 0)) ''fire'' = Some 0
     \<and> find_str (word (app_keywords campfire_app ! 0)) ''fire'' = Some 4
     \<and> weight (app_keywords firewall_app ! 0) = weight (app_keywords campfire_app ! 0)
     \<and> app_score ''fire'' firewall_app = 1000000
     \<and> app_score ''fire'' campfire_app = 1010000
     \<and> \<not> app_score ''fire'' campfire_app < app_score ''fire'' firewall_app
     \<and> find_str (word (app_keywords big_count_app ! 0)) ''fire'' = Some 0
     \<and> find_str (word (app_keywords bonfire_app ! 0)) ''fire'' = Some 3
     \<and> weight (app_keywords big_count_app ! 0) = weight (app_keywords bonfire_app ! 0)
     \<and> app_score ''fire'' big_count_app = - 1294967296
     \<and> app_score ''fire'' bonfire_app = 10000000
     \<and> \<not> app_score ''fire'' bonfire_app < app_score ''fire'' big_count_app"
  by code_simp

text \<open>
  C3, amended. For two applications whose first keywords that hold the query have the same
  index \<open>i\<close> and the same weight \<open>w\<close>, the query being a prefix of the one (application
  \<open>a\<close>) and found further in the other (application \<open>b\<close>), and whose scores by the formula,
  \<open>(100 - i) * w * 10000 + count a\<close> and \<open>(100 - i) * w * 100 + count b\<close>, lie within the
  range of \<^verbatim>\<open>int\<close>, the score of \<open>a\<close> is strictly higher exactly when the count of \<open>b\<close>
  exceeds the count of \<open>a\<close> by less than \<open>9900 * (100 - i) * w\<close>: so whenever \<open>i < 100\<close>,
  \<open>w \<ge> 1\<close> and the counts differ by less than 9900, and not for all counts.
\<close>

theorem prefix_match_scores_higher_iff:
  assumes "i < length (app_keywords a)" and "i < length (app_keywords b)"
    and "\<forall>j<i. \<not> sublist q (word (app_keywords a ! j))"
    and "\<forall>j<i. \<not> sublist q (word (app_keywords b ! j))"
    and "prefix q (word (app_keywords a ! i))"
    and "sublist q (word (app_keywords b ! i))" and "\<not> prefix q (word (app_keywords b ! i))"
    and "weight (app_keywords a ! i) = w" and "weight (app_keywords b ! i) = w"
    and "- (2 ^ 31) \<le> (100 - int i) * w * 10000 + app_count a"
    and "(100 - int i) * w * 10000 + app_count a < 2 ^ 31"
    and "- (2 ^ 31) \<le> (100 - int i) * w * 100 + app_count b"
    and "(100 - int i) * w * 100 + app_count b < 2 ^ 31"
  shows "app_score q b < app_score q a
           \<longleftrightarrow> app_count b - app_count a < 9900 * ((100 - int i) * w)"
proof -
  have "app_score q a = int32 ((100 - int i) * w * 10000 + app_count a)"
    using app_score_first[OF assms(1) prefix_imp_sublist[OF assms(5)] assms(3)] assms(5,8)
    by simp
  then have sa: "app_score q a = (100 - int i) * w * 10000 + app_count a"
    using assms(10,11) by (simp add: int32_id)
  have "app_score q b = int32 ((100 - int i) * w * 100 + app_count b)"
    using app_score_first[OF assms(2) assms(6) assms(4)] assms(7,9) by simp
  then have sb: "app_score q b = (100 - int i) * w * 100 + app_count b"
    using assms(12,13) by (simp add: int32_id)
  show ?thesis unfolding sa sb by (simp add: algebra_simps)
qed

theorem prefix_match_scores_higher_iff_witness:
  "prefix ''fire'' (word (app_keywords firewall_app ! 0))
     \<and> sublist ''fire'' (word (app_keywords (campfire_app\<lparr>app_count := 3\<rparr>) ! 0))
     \<and> \<not> prefix ''fire'' (word (app_keywords (campfire_app\<lparr>app_count := 3\<rparr>) ! 0))
     \<and> (100 - 0) * 1 * 10000 + app_count firewall_app = 1000000
     \<and> (100 - 0) * 1 * 100 + app_count (campfire_app\<lparr>app_count := 3\<rparr>) = 10003
     \<and> app_score ''fire'' (campfire_app\<lparr>app_count := 3\<rparr>) < app_score ''fire'' firewall_app"
proof -
  let ?b = "campfire_app\<lparr>app_count := 3\<rparr>"
  have 1: "0 < length (app_keywords firewall_app)" by (simp add: firewall_app_def)
  have 2: "0 < length (app_keywords ?b)" by (simp add: campfire_app_def)
  have 3: "\<forall>j<0. \<not> sublist ''fire'' (word (app_keywords firewall_app ! j))" by simp
  have 4: "\<forall>j<0. \<not> sublist ''fire'' (word (app_keywords ?b ! j))" by simp
  have 5: "prefix ''fire'' (word (app_keywords firewall_app ! 0))"
    by (simp add: firewall_app_def)
  have 6: "sublist ''fire'' (word (app_keywords ?b ! 0))"
    by (simp add: campfire_app_def sublist_code)
  have 7: "\<not> prefix ''fire'' (word (app_keywords ?b ! 0))"
    by (simp add: campfire_app_def)
  have 8: "weight (app_keywords firewall_app ! 0) = 1" by (simp add: firewall_app_def)
  have 9: "weight (app_keywords ?b ! 0) = 1" by (simp add: campfire_app_def)
  have ra: "(100 - 0) * 1 * 10000 + app_count firewall_app = 1000000"
    and rb: "(100 - 0) * 1 * 100 + app_count ?b = 10003"
    by (simp_all add: firewall_app_def)
  have 10: "- (2 ^ 31) \<le> (100 - int 0) * 1 * 10000 + app_count firewall_app"
    and 11: "(100 - int 0) * 1 * 10000 + app_count firewall_app < 2 ^ 31"
    and 12: "- (2 ^ 31) \<le> (100 - int 0) * 1 * 100 + app_count ?b"
    and 13: "(100 - int 0) * 1 * 100 + app_count ?b < 2 ^ 31"
    by (simp_all add: firewall_app_def)
  have "app_count ?b - app_count firewall_app < 9900 * ((100 - int 0) * 1)"
    by (simp add: firewall_app_def)
  with prefix_match_scores_higher_iff[OF 1 2 3 4 5 6 7 8 9 10 11 12 13]
  have "app_score ''fire'' ?b < app_score ''fire'' firewall_app" by simp
  with 5 6 7 ra rb show ?thesis by simp
qed

subsection \<open>C4: empty keywords\<close>

text \<open>
  C4 as stated fails: \<^verbatim>\<open>getline\<close> with a delimiter returns the empty string between two
  delimiters and before a leading one. A desktop file without a generic name gives the
  string that starts with the separating space, hence a keyword with empty text and
  weight 1; a name with two spaces in a row gives one with weight 1000.
\<close>

theorem empty_keyword_counterexample:
  "\<lparr>word = [], weight = 1\<rparr> \<in> set (app_keywords
      (read_application ''/usr/share/applications/firefox.desktop''
         (''Name=Firefox'' @ [CHR 0x0A] @ ''Comment=Web browser'' @ [CHR 0x0A]
            @ ''Exec=firefox'' @ [CHR 0x0A])))
   \<and> \<lparr>word = [], weight = 1000\<rparr> \<in> set (app_keywords
      (read_application ''/usr/share/applications/gimp.desktop''
         (''Name=GNU  Image'' @ [CHR 0x0A] @ ''GenericName=Editor'' @ [CHR 0x0A]
            @ ''Exec=gimp'' @ [CHR 0x0A])))"
  by code_simp

text \<open>
  C4, amended. The indexer makes one keyword of every field between the spaces of each
  string it tokenises, an empty field included; only an empty field after the last space
  gives none, so that the empty string gives no keyword. The two loops after the file is
  read append to the keywords of the record the fields of the lower-cased name with
  weight 1000, then the fields of the lower-cased generic name, a space and the comment
  with weight 1, in the order of the string. For a desktop file as a whole the keywords
  are, in this order, the fields of the lower-cased value of every \<^verbatim>\<open>Keywords=\<close> line before
  the first \<^verbatim>\<open>Exec=\<close> line with a value, with weight 1, then those of the name and those of
  the generic name, a space and the comment. Hence an application has a keyword with empty
  text exactly when one of these strings begins with a space or has two spaces in a row,
  which the last one does whenever the generic name is empty; and a string has an empty
  token exactly then.
\<close>

theorem indexer_keywords:
  "app_keywords (index_keywords a) =
     app_keywords a
     @ map (\<lambda>x. \<lparr>word = x, weight = 1000\<rparr>) (spec_tokens (lowercase (app_name a)))
     @ map (\<lambda>x. \<lparr>word = x, weight = 1\<rparr>)
         (spec_tokens (lowercase (genericName a @ [CHR '' ''] @ comment a)))
   \<and> app_keywords (read_application path content) =
     concat (map (\<lambda>h. map (\<lambda>x. \<lparr>word = x, weight = 1\<rparr>) (spec_tokens (lowercase h)))
               (spec_hint_values (getline_all (CHR 0x0A) content)))
     @ map (\<lambda>x. \<lparr>word = x, weight = 1000\<rparr>)
         (spec_tokens (lowercase (app_name (read_application path content))))
     @ map (\<lambda>x. \<lparr>word = x, weight = 1\<rparr>)
         (spec_tokens (lowercase (genericName (read_application path content) @ [CHR '' '']
                              @ comment (read_application path content))))
   \<and> ((\<exists>kw \<in> set (app_keywords (read_application path content)). word kw = []) \<longleftrightarrow>
        (\<exists>h \<in> set (spec_hint_values (getline_all (CHR 0x0A) content)). empty_field h)
        \<or> empty_field (app_name (read_application path content))
        \<or> empty_field (genericName (read_application path content) @ [CHR '' '']
                         @ comment (read_application path content)))
   \<and> ([] \<in> set (spec_tokens s) \<longleftrightarrow> empty_field s)"
proof -
  let ?a0 = "\<lparr>app_id = path, app_name = [], genericName = [], comment = [], cmd = [],
           app_keywords = [], app_count = 0\<rparr>"
  let ?ls = "getline_all (CHR 0x0A) content"
  let ?x = "parse_lines ?ls ?a0"
  let ?r = "read_application path content"
  have r: "?r = index_keywords ?x" by (simp add: read_application_def)
  have hints: "app_keywords ?x = concat (map (\<lambda>h. push_words 1 (lowercase h)) (spec_hint_values ?ls))"
    using parse_lines_hints[of ?a0 ?ls] by simp
  have kw: "app_keywords ?r =
      concat (map (\<lambda>h. push_words 1 (lowercase h)) (spec_hint_values ?ls))
      @ push_words 1000 (lowercase (app_name ?r))
      @ push_words 1 (lowercase (genericName ?r @ [CHR '' ''] @ comment ?r))"
    unfolding r index_keywords_fields by (simp add: index_keywords_def hints)
  have 1: "app_keywords ?r =
     concat (map (\<lambda>h. map (\<lambda>x. \<lparr>word = x, weight = 1\<rparr>) (spec_tokens (lowercase h))) (spec_hint_values ?ls))
     @ map (\<lambda>x. \<lparr>word = x, weight = 1000\<rparr>) (spec_tokens (lowercase (app_name ?r)))
     @ map (\<lambda>x. \<lparr>word = x, weight = 1\<rparr>)
         (spec_tokens (lowercase (genericName ?r @ [CHR '' ''] @ comment ?r)))"
    using kw by (simp only: push_words_spec_tokens)
  have "(\<exists>kw \<in> set (app_keywords ?r). word kw = []) \<longleftrightarrow>
        (\<exists>h \<in> set (spec_hint_values ?ls). \<exists>kw \<in> set (push_words 1 (lowercase h)). word kw = [])
        \<or> (\<exists>kw \<in> set (push_words 1000 (lowercase (app_name ?r))). word kw = [])
        \<or> (\<exists>kw \<in> set (push_words 1 (lowercase (genericName ?r @ [CHR '' ''] @ comment ?r))).
              word kw = [])"
    unfolding kw by auto
  then have 2: "(\<exists>kw \<in> set (app_keywords ?r). word kw = []) \<longleftrightarrow>
        (\<exists>h \<in> set (spec_hint_values ?ls). empty_field h)
        \<or> empty_field (app_name ?r)
        \<or> empty_field (genericName ?r @ [CHR '' ''] @ comment ?r)"
    by (simp only: push_words_empty empty_field_lowercase)
  have 0: "app_keywords (index_keywords a) =
     app_keywords a
     @ map (\<lambda>x. \<lparr>word = x, weight = 1000\<rparr>) (spec_tokens (lowercase (app_name a)))
     @ map (\<lambda>x. \<lparr>word = x, weight = 1\<rparr>)
         (spec_tokens (lowercase (genericName a @ [CHR '' ''] @ comment a)))"
    by (simp add: index_keywords_def push_words_spec_tokens)
  from 0 1 2 spec_tokens_empty_iff[of s] show ?thesis by blast
qed

subsection \<open>C5: a count that does not parse\<close>

text \<open>
  C5 as stated fails: \<^verbatim>\<open>readConfig\<close> passes the value to \<^verbatim>\<open>std::stoi\<close> and catches
  nothing. A value without a number ends the whole load with
  \<^verbatim>\<open>std::invalid_argument\<close>, the record after it unread; and a negative number is not
  skipped, it becomes the count.
\<close>

theorem bad_count_counterexample:
  "readConfig
     (Some (''/usr/share/applications/calc.desktop=many'' @ [CHR 0x0A]
              @ ''/usr/share/applications/edit.desktop=3'' @ [CHR 0x0A]))
     (DEFAULT_STYLE, [calc_app, edit_app]) = Inl InvalidArgument
   \<and> readConfig
     (Some (''/usr/share/applications/calc.desktop=-3'' @ [CHR 0x0A]
              @ ''/usr/share/applications/edit.desktop=3'' @ [CHR 0x0A]))
     (DEFAULT_STYLE, [calc_app, edit_app])
       = Inr (DEFAULT_STYLE, [calc_app\<lparr>app_count := - 3\<rparr>, edit_app\<lparr>app_count := 3\<rparr>])"
  by (simp add: eval_config)

text \<open>
  C5, amended. When the key of a record (the line up to its last equals sign, holding a
  slash) is the id of an application, \<^verbatim>\<open>readConfig\<close> applies \<^verbatim>\<open>std::stoi\<close> to the value.
  If \<^verbatim>\<open>stoi\<close> throws (no digits after optional white space and sign, or a number outside
  the range of \<^verbatim>\<open>int\<close>), the load ends there with that exception and the remaining
  records are not read. Otherwise the number read becomes the count of the first
  application with that id, also when it is negative or followed by other text, and the
  load goes on with the remaining records.
\<close>

theorem readConfig_count_record:
  assumes "CHR 0x0A \<notin> set line"
    and "find_last_of line ''='' = Some i"
    and "find_str (take i line) ''/'' \<noteq> None"
    and "j < length apps" and "app_id (apps ! j) = take i line"
    and "\<forall>j'<j. app_id (apps ! j') \<noteq> take i line"
  shows "readConfig (Some (line @ CHR 0x0A # content)) (style, apps) =
           (case stoi (drop (i + 1) line) of
              Inl e \<Rightarrow> Inl e
            | Inr n \<Rightarrow>
                readConfig (Some content) (style, apps[j := (apps ! j)\<lparr>app_count := n\<rparr>]))"
proof -
  have "readLine line (style, apps) =
          (case stoi (drop (i + 1) line) of
              Inl e \<Rightarrow> Inl e
            | Inr n \<Rightarrow> Inr (style, apps[j := (apps ! j)\<lparr>app_count := n\<rparr>]))"
    using assms(2,3) readCount_first[OF assms(4-6), of "drop (i + 1) line"]
    by (auto simp: readLine_def Let_def split: sum.splits)
  then show ?thesis
    by (simp add: readConfig_line[OF assms(1)] split: sum.splits)
qed

theorem readConfig_count_record_witness:
  "find_last_of ''/usr/share/applications/calc.desktop=12 times'' ''='' = Some 36
   \<and> stoi ''12 times'' = Inr 12
   \<and> stoi ''many'' = Inl InvalidArgument
   \<and> readConfig
       (Some (''/usr/share/applications/calc.desktop=12 times'' @ CHR 0x0A # []))
       (DEFAULT_STYLE, [calc_app, edit_app])
         = Inr (DEFAULT_STYLE, [calc_app\<lparr>app_count := 12\<rparr>, edit_app])
   \<and> readConfig
       (Some (''/usr/share/applications/calc.desktop=many'' @ CHR 0x0A
                # ''/usr/share/applications/edit.desktop=3''))
       (DEFAULT_STYLE, [calc_app, edit_app]) = Inl InvalidArgument"
proof -
  let ?l1 = "''/usr/share/applications/calc.desktop=12 times''"
  let ?l2 = "''/usr/share/applications/calc.desktop=many''"
  let ?apps = "[calc_app, edit_app]"
  have n1: "CHR 0x0A \<notin> set ?l1" and n2: "CHR 0x0A \<notin> set ?l2" by simp_all
  have e1: "find_last_of ?l1 ''='' = Some 36" and e2: "find_last_of ?l2 ''='' = Some 36"
    by simp_all
  have k1: "find_str (take 36 ?l1) ''/'' \<noteq> None" and k2: "find_str (take 36 ?l2) ''/'' \<noteq> None"
    by simp_all
  have j: "0 < length ?apps" by simp
  have i1: "app_id (?apps ! 0) = take 36 ?l1" and i2: "app_id (?apps ! 0) = take 36 ?l2"
    by (simp_all add: calc_app_def)
  have f1: "\<forall>j'<0. app_id (?apps ! j') \<noteq> take 36 ?l1"
    and f2: "\<forall>j'<0. app_id (?apps ! j') \<noteq> take 36 ?l2" by simp_all
  have s1: "stoi ''12 times'' = Inr 12" and s2: "stoi ''many'' = Inl InvalidArgument"
    by (simp_all add: stoi_def isspace_def isdigit_def Let_def)
  have "readConfig (Some (?l1 @ CHR 0x0A # [])) (DEFAULT_STYLE, ?apps)
          = Inr (DEFAULT_STYLE, [calc_app\<lparr>app_count := 12\<rparr>, edit_app])"
    using readConfig_count_record[OF n1 e1 k1 j i1 f1, of "[]" DEFAULT_STYLE] s1
    by (simp add: readConfig_end)
  moreover have "readConfig
       (Some (?l2 @ CHR 0x0A # ''/usr/share/applications/edit.desktop=3''))
       (DEFAULT_STYLE, ?apps) = Inl InvalidArgument"
    using readConfig_count_record[OF n2 e2 k2 j i2 f2,
        of "''/usr/share/applications/edit.desktop=3''" DEFAULT_STYLE] s2
    by simp
  ultimately show ?thesis using e1 s1 s2 by simp
qed

subsection \<open>C6: saving and loading\<close>

text \<open>
  C6 as stated fails: \<^verbatim>\<open>writeConfig\<close> writes the id of an application as it is, and the id
  is the path of the desktop file, which may hold a line feed. The line of such an
  application is read back as two lines: the first has no equals sign and is passed
  over, the key of the second has no slash and is no style attribute. With the style map
  that overrides the background and the counts 5 for this application and 0 for another
  one, the style is restored, but both counts are read back as 0.
\<close>

theorem config_round_trip_counterexample:
  "read_application (''/usr/share/applications'' @ ''/'' @ ''two'' @ [CHR 0x0A] @ ''lines.desktop'')
       (''Name=Two'' @ [CHR 0x0A] @ ''Exec=two'' @ [CHR 0x0A]) = zero_count newline_app
   \<and> CHR ''/'' \<in> set (app_id newline_app)
   \<and> app_id edit_app \<noteq> app_id newline_app
   \<and> app_count newline_app = 5
   \<and> app_count edit_app = 0
   \<and> writeConfig (DEFAULT_STYLE(C_BG := ''#000000''), [newline_app, edit_app]) =
       ''[Style]'' @ [CHR 0x0A] @ ''background=#000000'' @ [CHR 0x0A] @ [CHR 0x0A]
         @ ''[Application Launch Counts]'' @ [CHR 0x0A]
         @ ''/usr/share/applications/two'' @ [CHR 0x0A] @ ''lines.desktop=5'' @ [CHR 0x0A]
   \<and> readConfig (Some (writeConfig (DEFAULT_STYLE(C_BG := ''#000000''), [newline_app, edit_app])))
         (DEFAULT_STYLE, map zero_count [newline_app, edit_app])
       = Inr (DEFAULT_STYLE(C_BG := ''#000000''), map zero_count [newline_app, edit_app])
   \<and> map app_count (map zero_count [newline_app, edit_app]) = [0, 0]"
proof -
  let ?style = "DEFAULT_STYLE(C_BG := ''#000000'')"
  let ?fresh = "map zero_count [newline_app, edit_app]"
  let ?l2 = "''background'' @ ''='' @ ''#000000''"
  let ?l5 = "''/usr/share/applications/two''"
  let ?l6 = "''lines.desktop'' @ ''='' @ ''5''"
  have 1: "read_application
       (''/usr/share/applications'' @ ''/'' @ ''two'' @ [CHR 0x0A] @ ''lines.desktop'')
       (''Name=Two'' @ [CHR 0x0A] @ ''Exec=two'' @ [CHR 0x0A]) = zero_count newline_app"
    by code_simp
  have 2: "CHR ''/'' \<in> set (app_id newline_app)" "app_id edit_app \<noteq> app_id newline_app"
    "app_count newline_app = 5" "app_count edit_app = 0"
    by (simp_all add: newline_app_def edit_app_def)
  have ws: "writeStyle STYLE_ATTRIBUTES ?style = ''background=#000000'' @ [CHR 0x0A]"
    using writeStyle_one_override[of "''#000000''" C_BG]
    by (simp add: attribute_name_def STYLE_ATTRIBUTES_def)
  have wc: "writeCounts [newline_app, edit_app] =
      ''/usr/share/applications/two'' @ [CHR 0x0A] @ ''lines.desktop=5'' @ [CHR 0x0A]"
    by code_simp
  have written: "writeConfig (?style, [newline_app, edit_app]) =
      ''[Style]'' @ CHR 0x0A # ?l2 @ CHR 0x0A # [] @ CHR 0x0A
        # ''[Application Launch Counts]'' @ CHR 0x0A # ?l5 @ CHR 0x0A # ?l6 @ CHR 0x0A # []"
    unfolding writeConfig_def fst_conv snd_conv ws wc by simp
  have n1: "CHR 0x0A \<notin> set ''[Style]''" by simp
  have n2: "CHR 0x0A \<notin> set ?l2" by simp
  have n3: "CHR 0x0A \<notin> set []" by simp
  have n4: "CHR 0x0A \<notin> set ''[Application Launch Counts]''" by simp
  have n5: "CHR 0x0A \<notin> set ?l5" by simp
  have n6: "CHR 0x0A \<notin> set ?l6" by simp
  have r1: "readLine ''[Style]'' c = Inr c" for c
    by (rule readLine_no_equals) simp
  have r2: "readLine ?l2 (DEFAULT_STYLE, ?fresh) = Inr (?style, ?fresh)"
    using readLine_key_value[of "''#000000''" "''background''" "(DEFAULT_STYLE, ?fresh)"]
      readStyle_attribute_name[of C_BG "''#000000''" DEFAULT_STYLE]
    by (simp add: attribute_name_def STYLE_ATTRIBUTES_def)
  have r3: "readLine [] c = Inr c" for c
    by (rule readLine_no_equals) simp
  have r4: "readLine ''[Application Launch Counts]'' c = Inr c" for c
    by (rule readLine_no_equals) simp
  have r5: "readLine ?l5 c = Inr c" for c
    by (rule readLine_no_equals) simp
  have r6: "readLine ?l6 (?style, ?fresh) = Inr (?style, ?fresh)"
    using readLine_key_value[of "''5''" "''lines.desktop''" "(?style, ?fresh)"]
    by (simp add: STYLE_ATTRIBUTES_def)
  have 3: "readConfig (Some (writeConfig (?style, [newline_app, edit_app]))) (DEFAULT_STYLE, ?fresh)
          = Inr (?style, ?fresh)"
    unfolding written
    by (simp only: readConfig_line[OF n1] readConfig_line[OF n2] readConfig_line[OF n3]
          readConfig_line[OF n4] readConfig_line[OF n5] readConfig_line[OF n6]
          readConfig_end r1 r2 r3 r4 r5 r6 sum.case)
  have 4: "writeConfig (?style, [newline_app, edit_app]) =
       ''[Style]'' @ [CHR 0x0A] @ ''background=#000000'' @ [CHR 0x0A] @ [CHR 0x0A]
         @ ''[Application Launch Counts]'' @ [CHR 0x0A]
         @ ''/usr/share/applications/two'' @ [CHR 0x0A] @ ''lines.desktop=5'' @ [CHR 0x0A]"
    unfolding written by simp
  have 5: "map app_count (map zero_count [newline_app, edit_app]) = [0, 0]"
    by (simp add: zero_count_def)
  from 1 2 3 4 5 show ?thesis by blast
qed

text \<open>
  C6, amended. Let the style map have one attribute \<open>t\<close> overridden with a value \<open>v\<close> that
  differs from the default, and let the applications be \<open>a\<close> with count 5 and \<open>b\<close> with
  count 0, in either order, where the id of \<open>a\<close> holds no line feed. \<^verbatim>\<open>writeConfig\<close> writes
  the line of the attribute and the line of \<open>a\<close>, and no line for \<open>b\<close>; \<^verbatim>\<open>readConfig\<close> on
  that file, from the state of a new process (default style, all counts 0), returns the
  saved state: \<open>v\<close> for \<open>t\<close>, the default for every other attribute, count 5 for \<open>a\<close> and
  count 0 for \<open>b\<close>. The other hypotheses hold of every state the program reaches: a
  style attribute has its value from the defaults or from \<^verbatim>\<open>readConfig\<close>, which stores no
  value with an equals sign or a line feed (\<open>plain_value\<close>, lemma \<open>readConfig_plain\<close>); an
  id that \<^verbatim>\<open>getApplications\<close> assigns holds a slash (lemma \<open>getApplications_id_slash\<close>); and
  \<open>a\<close> and \<open>b\<close>, two keys of the counts, have different ids.
\<close>

theorem config_round_trip:
  assumes "v \<noteq> DEFAULT_STYLE t" and "plain_value v"
    and "CHR ''/'' \<in> set (app_id a)" and "CHR 0x0A \<notin> set (app_id a)"
    and "app_id b \<noteq> app_id a"
    and "app_count a = 5" and "app_count b = 0"
    and "apps = [a, b] \<or> apps = [b, a]"
  shows "writeConfig (DEFAULT_STYLE(t := v), apps) =
           ''[Style]'' @ [CHR 0x0A] @ attribute_name t @ ''='' @ v @ [CHR 0x0A]
             @ [CHR 0x0A] @ ''[Application Launch Counts]'' @ [CHR 0x0A]
             @ app_id a @ ''=5'' @ [CHR 0x0A]
       \<and> readConfig (Some (writeConfig (DEFAULT_STYLE(t := v), apps)))
             (DEFAULT_STYLE, map zero_count apps)
         = Inr (DEFAULT_STYLE(t := v), apps)"
proof -
  have v: "CHR ''='' \<notin> set v" "CHR 0x0A \<notin> set v"
    using assms(2) by (simp_all add: plain_value_def)
  have a5: "a\<lparr>app_count := 5\<rparr> = a" and b0: "b\<lparr>app_count := 0\<rparr> = b"
    using assms(6,7) by simp_all
  have w: "writeCounts apps = app_id a @ ''=5'' @ [CHR 0x0A]"
    using assms(6,7,8) by (auto simp: to_string_5)
  have r: "readCount (map zero_count apps) (app_id a) ''5'' = Inr apps"
    using assms(5,8) a5 b0 by (auto simp: zero_count_def stoi_5)
  show ?thesis
    by (rule round_trip_one_count[OF assms(1) v assms(3,4) w r])
qed

theorem config_round_trip_witness:
  "readConfig
     (Some (writeConfig (DEFAULT_STYLE(C_BG := ''#000000''), [calc_app\<lparr>app_count := 5\<rparr>, edit_app])))
     (DEFAULT_STYLE, [calc_app, edit_app])
   = Inr (DEFAULT_STYLE(C_BG := ''#000000''), [calc_app\<lparr>app_count := 5\<rparr>, edit_app])
   \<and> writeConfig (DEFAULT_STYLE(C_BG := ''#000000''), [calc_app\<lparr>app_count := 5\<rparr>, edit_app])
       = ''[Style]'' @ [CHR 0x0A] @ ''background=#000000'' @ [CHR 0x0A] @ [CHR 0x0A]
           @ ''[Application Launch Counts]'' @ [CHR 0x0A]
           @ ''/usr/share/applications/calc.desktop=5'' @ [CHR 0x0A]"
proof -
  let ?a = "calc_app\<lparr>app_count := 5\<rparr>"
  have 1: "''#000000'' \<noteq> DEFAULT_STYLE C_BG" by simp
  have 2: "plain_value ''#000000''" by (simp add: plain_value_def)
  have 4: "CHR ''/'' \<in> set (app_id ?a)" and 5: "CHR 0x0A \<notin> set (app_id ?a)"
    by (simp_all add: calc_app_def)
  have 6: "app_id edit_app \<noteq> app_id ?a" by (simp add: calc_app_def edit_app_def)
  have 7: "app_count ?a = 5" and 8: "app_count edit_app = 0" by (simp_all add: edit_app_def)
  have 9: "[?a, edit_app] = [?a, edit_app] \<or> [?a, edit_app] = [edit_app, ?a]" by simp
  have z: "map zero_count [?a, edit_app] = [calc_app, edit_app]"
    by (simp add: zero_count_def calc_app_def edit_app_def)
  have n: "attribute_name C_BG = ''background''"
    by (simp add: attribute_name_def STYLE_ATTRIBUTES_def)
  from config_round_trip[OF 1 2 4 5 6 7 8 9]
  have w: "writeConfig (DEFAULT_STYLE(C_BG := ''#000000''), [?a, edit_app]) =
           ''[Style]'' @ [CHR 0x0A] @ attribute_name C_BG @ ''='' @ ''#000000'' @ [CHR 0x0A]
             @ [CHR 0x0A] @ ''[Application Launch Counts]'' @ [CHR 0x0A]
             @ app_id ?a @ ''=5'' @ [CHR 0x0A]"
    and r: "readConfig (Some (writeConfig (DEFAULT_STYLE(C_BG := ''#000000''), [?a, edit_app])))
             (DEFAULT_STYLE, map zero_count [?a, edit_app])
         = Inr (DEFAULT_STYLE(C_BG := ''#000000''), [?a, edit_app])"
    by blast+
  have i: "app_id ?a = ''/usr/share/applications/calc.desktop''"
    by (simp add: calc_app_def)
  from r have "readConfig (Some (writeConfig (DEFAULT_STYLE(C_BG := ''#000000''), [?a, edit_app])))
             (DEFAULT_STYLE, [calc_app, edit_app])
         = Inr (DEFAULT_STYLE(C_BG := ''#000000''), [?a, edit_app])"
    unfolding z .
  moreover from w have "writeConfig (DEFAULT_STYLE(C_BG := ''#000000''), [?a, edit_app])
       = ''[Style]'' @ [CHR 0x0A] @ ''background=#000000'' @ [CHR 0x0A] @ [CHR 0x0A]
           @ ''[Application Launch Counts]'' @ [CHR 0x0A]
           @ ''/usr/share/applications/calc.desktop=5'' @ [CHR 0x0A]"
    unfolding n i by simp
  ultimately show ?thesis by blast
qed

subsection \<open>C7: the cursor stays within the query\<close>

text \<open>
  C7 holds of every key but one. A key press whose text is the single byte zero
  (Control and space, for which \<^verbatim>\<open>Xutf8LookupString\<close> returns one byte) takes the
  \<^verbatim>\<open>default\<close> branch with \<^verbatim>\<open>textlength == 1\<close>: the buffer, read as a C string, adds
  nothing to the query, and the cursor is incremented all the same. On the empty query
  the cursor becomes 1, beyond the end; the next character typed makes
  \<^verbatim>\<open>query.substr(cursor, ...)\<close> throw \<^verbatim>\<open>std::out_of_range\<close>. For every run of cursor and
  editing keys without that byte the bound holds (lemma \<open>key_events_cursor_ok\<close>).
\<close>

theorem nul_key_breaks_cursor_bound:
  "onKeyPress XK_other [CHR 0x00]
      \<lparr>query = [], queryi = [], selected = 0, cursor = 0, results = []\<rparr>
     = Returns \<lparr>query = [], queryi = [], selected = 0, cursor = 1, results = []\<rparr>
   \<and> \<not> cursor_ok \<lparr>query = [], queryi = [], selected = 0, cursor = 1, results = []\<rparr>
   \<and> key_events sort_desc [] [(XK_other, [CHR 0x00]), (XK_other, ''a'')]
      \<lparr>query = [], queryi = [], selected = 0, cursor = 0, results = []\<rparr>
     = Throws OutOfRange"
  by (simp add: onKeyPress_def after_switch_def substr_def to_size_t_def c_str_def
      lowercase_def key_event_def search_def cursor_ok_def)

subsection \<open>C8: the empty query, and applications that do not match\<close>

text \<open>
  C8. For the empty query \<^verbatim>\<open>search\<close> returns no result, whatever the applications. An
  application none of whose keywords holds the query has score 0 and is no result.
\<close>

theorem empty_query_and_unmatched_application:
  assumes "std_sort srt"
  shows "search srt [] apps = []
       \<and> (k < length apps \<and> \<not> app_matches q (apps ! k)
            \<longrightarrow> app_score q (apps ! k) = 0 \<and> (\<forall>r \<in> set (search srt q apps). app r \<noteq> k))"
proof -
  have "search srt [] apps = []" by (simp add: search_def)
  moreover have "app_score q (apps ! k) = 0 \<and> (\<forall>r \<in> set (search srt q apps). app r \<noteq> k)"
    if "k < length apps" and "\<not> app_matches q (apps ! k)"
  proof -
    have z: "app_score q (apps ! k) = 0"
      using that(2) by (simp add: app_score_def app_matches_def scan_keywords_none)
    have "app r \<noteq> k" if "r \<in> set (search srt q apps)" for r
      using search_member[OF assms that] z by auto
    with z show ?thesis by blast
  qed
  ultimately show ?thesis by blast
qed

theorem empty_query_and_unmatched_application_witness:
  "search sort_desc [] [firefox_app] = []
     \<and> \<not> app_matches ''zip'' firefox_app
     \<and> app_score ''zip'' firefox_app = 0
     \<and> search sort_desc ''zip'' [firefox_app] = []"
proof -
  have nm: "\<not> app_matches ''zip'' ([firefox_app] ! 0)"
    by (simp add: app_matches_def firefox_app_def sublist_code)
  from empty_query_and_unmatched_application[OF std_sort_sort_desc, of "[firefox_app]" 0 "''zip''"] nm
  have e: "search sort_desc [] [firefox_app] = []"
    and z: "app_score ''zip'' firefox_app = 0"
    by simp_all
  from z have "search sort_desc ''zip'' [firefox_app] = []"
    by (simp add: search_def)
  with e z nm show ?thesis by simp
qed

subsection \<open>C9: the worked example\<close>

text \<open>
  C9 as stated fails in its first number: \<open>100 * 1000 * 10000 + 5\<close> is 1000000005, not
  100000005.
\<close>

theorem worked_example_fire_counterexample:
  "app_score ''fire'' firefox_app \<noteq> 100000005"
  by (simp add: app_score_def firefox_app_def int32_def)

text \<open>
  C9, amended. For the application with the keywords \<open>(firefox, 1000)\<close>, \<open>(web, 1)\<close>,
  \<open>(browser, 1)\<close> and count 5, the query \<open>fire\<close> is found at position 0 of the keyword at
  index 0, of weight 1000, and the score is \<open>100 * 1000 * 10000 + 5 = 1000000005\<close>; the
  query \<open>web\<close> is not found in the keyword at index 0 and is found at position 0 of the
  keyword at index 1, of weight 1, and the score is \<open>99 * 1 * 10000 + 5 = 990005\<close>.
\<close>

theorem worked_example_scores:
  "find_str (word (app_keywords firefox_app ! 0)) ''fire'' = Some 0
   \<and> weight (app_keywords firefox_app ! 0) = 1000
   \<and> app_score ''fire'' firefox_app = 100 * 1000 * 10000 + 5
   \<and> app_score ''fire'' firefox_app = 1000000005
   \<and> find_str (word (app_keywords firefox_app ! 0)) ''web'' = None
   \<and> find_str (word (app_keywords firefox_app ! 1)) ''web'' = Some 0
   \<and> weight (app_keywords firefox_app ! 1) = 1
   \<and> app_score ''web'' firefox_app = 99 * 1 * 10000 + 5
   \<and> app_score ''web'' firefox_app = 990005
   \<and> search sort_desc ''fire'' [firefox_app] = [\<lparr>app = 0, score = 1000000005\<rparr>]
   \<and> search sort_desc ''web'' [firefox_app] = [\<lparr>app = 0, score = 990005\<rparr>]"
  by (simp add: app_score_def firefox_app_def search_def int32_def)

subsection \<open>C10: which applications become results\<close>

text \<open>
  C10 as stated fails in two places. For the results that \<^verbatim>\<open>search\<close> leaves, a positive
  score does not suffice once more than ten applications have one: of the eleven
  applications of \<open>eleven_apps\<close> the first has a positive score and is not among the ten
  results; the eleven scores differ, so every sort leaves the same ten. And an index of
  100 or more does not exclude an application whose count is 0 when the product leaves
  the range of \<^verbatim>\<open>int\<close>: the first keyword of \<open>long_app\<close> that holds the query \<open>a\<close> is at
  index 315 with weight 1000, the query is a prefix of it, the formula's value is
  -2150000000, the score the program computes is 2144967296, and the application is a
  result.
\<close>

theorem included_iff_positive_score_counterexample:
  "0 < app_score ''fire'' (eleven_apps ! 0)
     \<and> \<not> (\<exists>r \<in> set (search sort_desc ''fire'' eleven_apps). app r = 0)
     \<and> \<not> list_ex (\<lambda>kw. sublist ''a'' (word kw)) (take 315 (app_keywords long_app))
     \<and> find_str (word (app_keywords long_app ! 315)) ''a'' = Some 0
     \<and> weight (app_keywords long_app ! 315) = 1000
     \<and> app_count long_app = 0
     \<and> app_score ''a'' long_app = 2144967296
     \<and> search sort_desc ''a'' [long_app] = [\<lparr>app = 0, score = 2144967296\<rparr>]"
proof -
  have 1: "0 < app_score ''fire'' (eleven_apps ! 0)
     \<and> \<not> (\<exists>r \<in> set (search sort_desc ''fire'' eleven_apps). app r = 0)"
    by code_simp
  have 2: "\<not> list_ex (\<lambda>kw. sublist ''a'' (word kw)) (take 315 (app_keywords long_app))"
    by (simp add: long_app_eq list_ex_iff sublist_code)
  have 3: "find_str (word (app_keywords long_app ! 315)) ''a'' = Some 0"
    "weight (app_keywords long_app ! 315) = 1000" "app_count long_app = 0"
    by (simp_all add: long_app_eq nth_append)
  have 4: "app_score ''a'' long_app = 2144967296"
    using app_score_first[OF long_app_first] by (simp add: long_app_eq nth_append int32_def)
  then have 5: "search sort_desc ''a'' [long_app] = [\<lparr>app = 0, score = 2144967296\<rparr>]"
    by (simp add: search_def)
  from 1 2 3 4 5 show ?thesis by simp
qed

text \<open>
  C10, amended. The loop over the applications appends an application to \<^verbatim>\<open>results\<close>
  if and only if its score is strictly positive. After the sort and the cut to ten, every
  application among the results has a strictly positive score, and every application
  with a strictly positive score is among them when at most ten applications have one.
  In particular an application whose first keyword that holds the query is at index 100
  or beyond, with a weight that is not negative (the indexer assigns 1 and 1000 only,
  lemma \<open>read_application_weights\<close>), and whose count is 0, has a score of at most 0 and
  is no result, although it matches the query, as long as the product
  \<open>(100 - i) * w * (if m = 0 then 10000 else 100)\<close> is not below \<open>- 2^31\<close>, the least
  \<^verbatim>\<open>int\<close>: for weight 1000 and a prefix match that is up to index 314.
\<close>

theorem included_iff_positive_score:
  assumes "std_sort srt" and "k < length apps"
  shows "((\<exists>r \<in> set (collect q 0 apps). app r = k) \<longleftrightarrow> 0 < app_score q (apps ! k))
       \<and> ((\<exists>r \<in> set (search srt q apps). app r = k) \<longrightarrow> 0 < app_score q (apps ! k))
       \<and> (q \<noteq> [] \<and> length (filter (\<lambda>a. 0 < app_score q a) apps) \<le> 10
             \<and> 0 < app_score q (apps ! k)
            \<longrightarrow> (\<exists>r \<in> set (search srt q apps). app r = k))
       \<and> (i < length (app_keywords (apps ! k)) \<and> 100 \<le> i
             \<and> sublist q (word (app_keywords (apps ! k) ! i))
             \<and> (\<forall>j<i. \<not> sublist q (word (app_keywords (apps ! k) ! j)))
             \<and> 0 \<le> weight (app_keywords (apps ! k) ! i) \<and> app_count (apps ! k) = 0
             \<and> - (2 ^ 31) \<le> (100 - int i) * weight (app_keywords (apps ! k) ! i)
                   * (if prefix q (word (app_keywords (apps ! k) ! i)) then 10000 else 100)
            \<longrightarrow> app_score q (apps ! k) \<le> 0 \<and> (\<forall>r \<in> set (search srt q apps). app r \<noteq> k))"
proof -
  have 1: "(\<exists>r \<in> set (collect q 0 apps). app r = k) \<longleftrightarrow> 0 < app_score q (apps ! k)"
  proof
    assume "\<exists>r \<in> set (collect q 0 apps). app r = k"
    then show "0 < app_score q (apps ! k)" by (auto simp: collect_set)
  next
    assume "0 < app_score q (apps ! k)"
    then have "\<lparr>app = k, score = app_score q (apps ! k)\<rparr> \<in> set (collect q 0 apps)"
      using assms(2) by (auto simp: collect_set)
    then show "\<exists>r \<in> set (collect q 0 apps). app r = k" by force
  qed
  have 2: "0 < app_score q (apps ! k)" if "\<exists>r \<in> set (search srt q apps). app r = k"
    using that search_member[OF assms(1)] by fastforce
  have 3: "\<exists>r \<in> set (search srt q apps). app r = k"
    if "q \<noteq> []" and "length (filter (\<lambda>a. 0 < app_score q a) apps) \<le> 10"
      and "0 < app_score q (apps ! k)"
  proof -
    have "length (srt (collect q 0 apps)) \<le> 10"
      using that(2) by (simp add: std_sort_length[OF assms(1)] length_collect)
    then have "search srt q apps = srt (collect q 0 apps)"
      using that(1) by (simp add: search_def Let_def)
    then have "set (search srt q apps) = set (collect q 0 apps)"
      by (simp add: std_sort_set[OF assms(1)])
    with 1 that(3) show ?thesis by simp
  qed
  have 4: "app_score q (apps ! k) \<le> 0 \<and> (\<forall>r \<in> set (search srt q apps). app r \<noteq> k)"
    if i: "i < length (app_keywords (apps ! k))" and big: "100 \<le> i"
      and s: "sublist q (word (app_keywords (apps ! k) ! i))"
      and n: "\<forall>j<i. \<not> sublist q (word (app_keywords (apps ! k) ! j))"
      and w: "0 \<le> weight (app_keywords (apps ! k) ! i)" and c: "app_count (apps ! k) = 0"
      and lo: "- (2 ^ 31) \<le> (100 - int i) * weight (app_keywords (apps ! k) ! i)
                 * (if prefix q (word (app_keywords (apps ! k) ! i)) then 10000 else 100)"
  proof -
    let ?P = "(100 - int i) * weight (app_keywords (apps ! k) ! i)
                 * (if prefix q (word (app_keywords (apps ! k) ! i)) then 10000 else 100)"
    have "(100 - int i) * weight (app_keywords (apps ! k) ! i) \<le> 0"
      using big w by (simp add: mult_le_0_iff)
    then have up: "?P \<le> 0"
      by (simp add: mult_le_0_iff)
    then have "int32 ?P = ?P" using lo by (intro int32_id) simp_all
    then have le: "app_score q (apps ! k) \<le> 0"
      using app_score_first[OF i s n] c up by simp
    with 2 show ?thesis by fastforce
  qed
  from 1 2 3 4 show ?thesis by blast
qed

theorem included_iff_positive_score_witness:
  "std_sort sort_desc
     \<and> sublist ''a'' (word (app_keywords deep_app ! 100))
     \<and> app_count deep_app = 0
     \<and> (100 - 100) * weight (app_keywords deep_app ! 100) * 10000 = 0
     \<and> app_score ''a'' deep_app \<le> 0
     \<and> \<not> (\<exists>r \<in> set (collect ''a'' 0 [deep_app]). app r = 0)
     \<and> \<not> (\<exists>r \<in> set (search sort_desc ''a'' [deep_app]). app r = 0)
     \<and> length (filter (\<lambda>a. 0 < app_score ''fire'' a) [firefox_app]) = 1
     \<and> 0 < app_score ''fire'' firefox_app
     \<and> (\<exists>r \<in> set (collect ''fire'' 0 [firefox_app]). app r = 0)
     \<and> (\<exists>r \<in> set (search sort_desc ''fire'' [firefox_app]). app r = 0)"
proof -
  have k: "0 < length [deep_app]" by simp
  have w: "0 \<le> weight (app_keywords deep_app ! 100)" "app_count deep_app = 0"
    by (simp_all add: deep_app_eq nth_append)
  have lo: "- (2 ^ 31) \<le> (100 - int 100) * weight (app_keywords deep_app ! 100)
              * (if prefix ''a'' (word (app_keywords deep_app ! 100)) then 10000 else 100)"
    by simp
  note t = included_iff_positive_score[OF std_sort_sort_desc k, of "''a''" 100]
  from t deep_app_first w lo
  have le: "app_score ''a'' deep_app \<le> 0"
    and no: "\<forall>r \<in> set (search sort_desc ''a'' [deep_app]). app r \<noteq> 0"
    by simp_all
  from t le have nc: "\<not> (\<exists>r \<in> set (collect ''a'' 0 [deep_app]). app r = 0)"
    by simp
  have k': "0 < length [firefox_app]" by simp
  have q: "''fire'' \<noteq> []" by simp
  have pos: "0 < app_score ''fire'' firefox_app"
    by (simp add: app_score_def firefox_app_def int32_def)
  then have few: "length (filter (\<lambda>a. 0 < app_score ''fire'' a) [firefox_app]) = 1"
    by simp
  note u = included_iff_positive_score[OF std_sort_sort_desc k', of "''fire''"]
  from u pos have inc: "\<exists>r \<in> set (collect ''fire'' 0 [firefox_app]). app r = 0"
    by simp
  from u q pos few have ins: "\<exists>r \<in> set (search sort_desc ''fire'' [firefox_app]). app r = 0"
    by simp
  from le no nc w std_sort_sort_desc deep_app_first(2) pos few inc ins show ?thesis
    by simp
qed

end
